theory Spec2Isabelle
  imports
    Main
    "HOL-Library.Char_ord"
    "HOL-Library.List_Lexorder"
    "HOL-Library.Multiset"
    "HOL-Library.AList"
begin

section \<open>The recipe store of the Watson recipe bot\<close>

text \<open>
  This theory embeds \<^verbatim>\<open>souschef/graph_recipe_store.py\<close> (class \<^verbatim>\<open>GraphRecipeStore\<close>).
  The store talks to a remote property graph through a client object; the client library
  and the graph service are not part of the repository, so they appear here as an
  explicit model of the graph (vertices, edges, an identifier counter) and of the Gremlin
  steps that the query strings of the store are made of. A query is represented by its
  steps and their arguments, not by its text. The text that \<^verbatim>\<open>format\<close> builds parses
  back to the steps it was written for when the values formatted into it are plain (no
  double quote, backslash, dollar or line break); \<open>add_vertex_if_not_exists_text\<close> below
  is the lookup with the text taken into account, \<open>add_vertex_if_not_exists_text_plain\<close>
  proves that the two agree on plain values, and C4 is settled on the text.
\<close>

subsection \<open>Python strings\<close>

text \<open>
  A string is a list of characters. The type of the characters is left open in the key
  normaliser (\<open>'c\<close>, linearly ordered): bytes for a Python 2 \<^verbatim>\<open>str\<close>, code points for a
  Python 3 \<^verbatim>\<open>str\<close> and a Python 2 \<^verbatim>\<open>unicode\<close>. \<^verbatim>\<open>str.lower\<close> and the whitespace
  test of \<^verbatim>\<open>str.strip()\<close> belong to the Python runtime and its Unicode tables, not to
  the repository, and differ between versions: they are the parameters \<open>lower\<close>, a
  function on strings (lower-casing may change the length of a string and look at the
  neighbours of a character), and \<open>is_space\<close>, a test on characters. \<^verbatim>\<open>strip()\<close>
  removes from both ends the characters that pass the test. \<^verbatim>\<open>split(',')\<close> always
  returns at least one token; a list of strings is sorted by the lexicographic order on
  characters.
\<close>

definition strip :: "('c \<Rightarrow> bool) \<Rightarrow> 'c list \<Rightarrow> 'c list" where
  "strip is_space s = rev (dropWhile is_space (rev (dropWhile is_space s)))"

fun split :: "'c \<Rightarrow> 'c list \<Rightarrow> 'c list list" where
  "split sep [] = [[]]"
| "split sep (c # cs) =
     (if c = sep then [] # split sep cs
      else (case split sep cs of [] \<Rightarrow> [[c]] | t # ts \<Rightarrow> (c # t) # ts))"

fun join :: "'c list \<Rightarrow> 'c list list \<Rightarrow> 'c list" where
  "join sep [] = []"
| "join sep [x] = x"
| "join sep (x # y # ys) = x @ sep @ join sep (y # ys)"

subsection \<open>Key normaliser\<close>

text \<open>
  \<^verbatim>\<open>get_unique_ingredients_name\<close>:
  \<^verbatim>\<open>ingredients = [x.strip() for x in ingredients_str.lower().strip().split(',')]\<close>,
  \<^verbatim>\<open>ingredients.sort()\<close>, \<^verbatim>\<open>return ','.join([x for x in ingredients])\<close>.
  The parameter \<open>comma\<close> is the character \<^verbatim>\<open>,\<close> of the character type.
\<close>

definition get_unique_ingredients_name ::
  "('c \<Rightarrow> bool) \<Rightarrow> ('c list \<Rightarrow> 'c list) \<Rightarrow> 'c \<Rightarrow> 'c::linorder list \<Rightarrow> 'c list" where
  "get_unique_ingredients_name is_space lower comma ingredients_str =
     (let ingredients =
            map (strip is_space) (split comma (strip is_space (lower ingredients_str)));
          ingredients = sort ingredients
      in join [comma] ingredients)"

text \<open>\<^verbatim>\<open>get_unique_cuisine_name\<close>: \<^verbatim>\<open>cuisine.strip().lower()\<close>.\<close>

definition get_unique_cuisine_name :: "('c \<Rightarrow> bool) \<Rightarrow> ('c list \<Rightarrow> 'c list) \<Rightarrow> 'c list \<Rightarrow> 'c list" where
  "get_unique_cuisine_name is_space lower cuisine = lower (strip is_space cuisine)"

text \<open>
  The ingredient tokens of a raw string: the comma-separated pieces of the lower-cased
  string, each trimmed. Two raw strings are permutations or whitespace and case variants
  of one another when they have the same multiset of tokens.
\<close>

definition ingredient_tokens ::
  "('c \<Rightarrow> bool) \<Rightarrow> ('c list \<Rightarrow> 'c list) \<Rightarrow> 'c \<Rightarrow> 'c list \<Rightarrow> 'c list list" where
  "ingredient_tokens is_space lower comma raw = map (strip is_space) (split comma (lower raw))"

text \<open>
  Lower-casing works token by token when the lower-cased comma-join of tokens without a
  comma splits into the lower-cased tokens: the comma is not a letter, and lower-casing
  neither makes nor removes one.
\<close>

definition lower_tokenwise :: "'c \<Rightarrow> ('c list \<Rightarrow> 'c list) \<Rightarrow> bool" where
  "lower_tokenwise comma lower \<longleftrightarrow>
     (\<forall>xs. xs \<noteq> [] \<and> list_all (\<lambda>t. comma \<notin> set t) xs \<longrightarrow>
        split comma (lower (join [comma] xs)) = map lower xs)"

text \<open>
  What every Python runtime does on ASCII text, over bytes: lower-casing a string of
  ASCII characters maps \<^verbatim>\<open>A-Z\<close> to \<^verbatim>\<open>a-z\<close> and leaves the rest; the space is
  whitespace, and no character from \<^verbatim>\<open>!\<close> to \<^verbatim>\<open>~\<close> is.
\<close>

definition lower_char :: "char \<Rightarrow> char" where
  "lower_char c =
     (case map_of (zip ''ABCDEFGHIJKLMNOPQRSTUVWXYZ'' ''abcdefghijklmnopqrstuvwxyz'') c of
        Some d \<Rightarrow> d | None \<Rightarrow> c)"

definition lowers_ascii :: "(string \<Rightarrow> string) \<Rightarrow> bool" where
  "lowers_ascii lower \<longleftrightarrow>
     (\<forall>s. list_all (\<lambda>c. c < CHR 0x80) s \<longrightarrow> lower s = map lower_char s)"

definition spaces_ascii :: "(char \<Rightarrow> bool) \<Rightarrow> bool" where
  "spaces_ascii is_space \<longleftrightarrow>
     is_space CHR '' '' \<and> (\<forall>c. CHR ''!'' \<le> c \<and> c \<le> CHR ''~'' \<longrightarrow> \<not> is_space c)"

text \<open>
  One such runtime, for examples: the lower-casing and the whitespace test of a Python 2
  byte string in the C locale.
\<close>

definition ascii_lower :: "string \<Rightarrow> string" where
  "ascii_lower s = map lower_char s"

definition ascii_space :: "char \<Rightarrow> bool" where
  "ascii_space c = (c \<in> set [CHR '' '', CHR 0x09, CHR 0x0A, CHR 0x0B, CHR 0x0C, CHR 0x0D])"

subsection \<open>Vertices, edges and their properties\<close>

text \<open>
  Modelled from the spec: the client library's \<^verbatim>\<open>Vertex\<close> and \<^verbatim>\<open>Edge\<close> objects,
  which are not in the repository. They carry an identifier (absent until the graph
  service has stored the element, which assigns it), a label and a dictionary of
  properties; an edge also carries the identifiers of the vertex it leaves and of the
  vertex it enters. Property values are strings (\<^verbatim>\<open>name\<close>, \<^verbatim>\<open>title\<close>, \<^verbatim>\<open>detail\<close>) or
  integers (\<^verbatim>\<open>count\<close>). A dictionary is an association list: a new key goes to the
  end, an existing key keeps its place. \<^verbatim>\<open>get_property_value\<close> returns \<^verbatim>\<open>None\<close> for a
  key that is not there.
\<close>

datatype pval = PStr string | PInt int

type_synonym props = "(string \<times> pval) list"

definition get_property_value :: "props \<Rightarrow> string \<Rightarrow> pval option" where
  "get_property_value properties property_name = map_of properties property_name"

definition set_property_value :: "props \<Rightarrow> string \<Rightarrow> pval \<Rightarrow> props" where
  "set_property_value properties property_name property_value =
     AList.update property_name property_value properties"

record vertex =
  v_id :: "nat option"
  v_label :: string
  v_props :: props

record edge =
  e_id :: "nat option"
  e_label :: string
  out_v :: nat
  in_v :: nat
  e_props :: props

datatype error = TypeError | QueryError

text \<open>
  \<^verbatim>\<open>'{}'.format(x)\<close> for the values the store formats into its query strings: a string
  is itself, an integer is its decimal numeral, \<^verbatim>\<open>None\<close> is the text \<^verbatim>\<open>None\<close>.
\<close>

definition digit_char :: "nat \<Rightarrow> char" where
  "digit_char n = char_of (48 + n)"

function str_nat :: "nat \<Rightarrow> string" where
  "str_nat n = (if n < 10 then [digit_char n] else str_nat (n div 10) @ [digit_char (n mod 10)])"
  by pat_completeness auto
termination
  by (relation "measure (\<lambda>n. n)") auto

definition str_int :: "int \<Rightarrow> string" where
  "str_int i = (if i < 0 then CHR ''-'' # str_nat (nat (- i)) else str_nat (nat i))"

definition format_value :: "pval option \<Rightarrow> string" where
  "format_value x = (case x of None \<Rightarrow> ''None'' | Some (PStr s) \<Rightarrow> s | Some (PInt i) \<Rightarrow> str_int i)"

text \<open>\<^verbatim>\<open>get_unique_recipe_name\<close>: \<^verbatim>\<open>str(recipe_id).strip().lower()\<close>.\<close>

definition get_unique_recipe_name ::
  "(char \<Rightarrow> bool) \<Rightarrow> (string \<Rightarrow> string) \<Rightarrow> pval \<Rightarrow> string" where
  "get_unique_recipe_name is_space lower recipe_id =
     lower (strip is_space (format_value (Some recipe_id)))"

subsection \<open>The graph service\<close>

text \<open>
  Modelled from the spec: the graph service behind the client, with its operations
  \<^emph>\<open>add vertex\<close>, \<^emph>\<open>add edge\<close> and \<^emph>\<open>update edge (overwrite properties by identifier)\<close>.
  The graph held by the service: the stored vertices and edges, in the order in which
  they were added, and the next free identifier. \<^verbatim>\<open>add_vertex\<close> and \<^verbatim>\<open>add_edge\<close> store
  the element under a fresh identifier; \<^verbatim>\<open>add_vertex\<close> returns the stored vertex.
  \<^verbatim>\<open>update_edge\<close> overwrites the properties of the stored edge that has the identifier of
  the edge passed in. Failures of the service itself (unreachable, time-out) are outside
  this model.
\<close>

record graph =
  vertices :: "vertex list"
  edges :: "edge list"
  next_id :: nat

definition empty_graph :: graph where
  "empty_graph = \<lparr>vertices = [], edges = [], next_id = 0\<rparr>"

definition add_vertex :: "graph \<Rightarrow> vertex \<Rightarrow> vertex \<times> graph" where
  "add_vertex g vertex =
     (let stored = vertex\<lparr>v_id := Some (next_id g)\<rparr>
      in (stored, g\<lparr>vertices := vertices g @ [stored], next_id := Suc (next_id g)\<rparr>))"

definition add_edge :: "graph \<Rightarrow> edge \<Rightarrow> graph" where
  "add_edge g edge =
     g\<lparr>edges := edges g @ [edge\<lparr>e_id := Some (next_id g)\<rparr>], next_id := Suc (next_id g)\<rparr>"

definition update_edge :: "graph \<Rightarrow> edge \<Rightarrow> graph" where
  "update_edge g edge =
     g\<lparr>edges := map (\<lambda>x. if e_id x = e_id edge then x\<lparr>e_props := e_props edge\<rparr> else x) (edges g)\<rparr>"

text \<open>
  Modelled from the spec: the service's execution of a traversal query, which returns a
  sequence of vertices or of paths. These are the traversals behind the query strings of
  the store. Each Gremlin step is one
  generator or one filter of a list comprehension, in the order of the query string.
  The bindings of a list comprehension are the objects of the path that \<^verbatim>\<open>.path()\<close>
  returns, in order.

  \<^verbatim>\<open>g.V().hasLabel("{}").has("{}", "{}")\<close>: the vertices with the given label whose
  property has the given (string) value.
\<close>

definition vertices_by_property :: "graph \<Rightarrow> string \<Rightarrow> string \<Rightarrow> string \<Rightarrow> vertex list" where
  "vertices_by_property g label property_name property_value =
     [v. v \<leftarrow> vertices g, v_label v = label,
         get_property_value (v_props v) property_name = Some (PStr property_value)]"

text \<open>
  \<^verbatim>\<open>g.V({}).outE().inV().hasId({}).path()\<close>: the paths (vertex, edge, vertex) from the vertex
  with the first identifier along any outgoing edge to the vertex with the second identifier.
  Object 1 of such a path is the edge.
\<close>

type_synonym edge_path = "vertex \<times> edge \<times> vertex"

definition edge_paths :: "graph \<Rightarrow> nat \<Rightarrow> nat \<Rightarrow> edge_path list" where
  "edge_paths g a b =
     [(v, e, w). v \<leftarrow> vertices g, v_id v = Some a,
                 e \<leftarrow> edges g, out_v e = a,
                 w \<leftarrow> vertices g, v_id w = Some (in_v e),
                 v_id w = Some b]"

definition edge_path_object1 :: "edge_path \<Rightarrow> edge" where
  "edge_path_object1 path = fst (snd path)"

text \<open>
  The integer \<^verbatim>\<open>count\<close> of an edge, if it has one. \<^verbatim>\<open>has("count", gt(1))\<close> keeps the
  edges that have the property with a value above 1.
\<close>

definition edge_count :: "edge \<Rightarrow> int option" where
  "edge_count e =
     (case get_property_value (e_props e) ''count'' of Some (PInt c) \<Rightarrow> Some c | _ \<Rightarrow> None)"

definition count_gt :: "int \<Rightarrow> edge \<Rightarrow> bool" where
  "count_gt n e = (case edge_count e of Some c \<Rightarrow> c > n | None \<Rightarrow> False)"

text \<open>
  \<^verbatim>\<open>g.V().hasLabel("person").has("name", "{}").outE().order().by("count", decr)\<close>
  \<^verbatim>\<open>.inV().hasLabel("recipe").limit({})\<close>.
  The step \<^verbatim>\<open>order().by("count", decr)\<close> is the parameter \<open>ord\<close>: the service's order among
  edges of equal count is not fixed, and what it does with an edge that has no count is
  not known; \<open>orders_by_count_decr\<close> says what the theorems need of it: a list whose
  edges all have a count comes back as a permutation of itself in descending order of
  count. The limit is a natural number.
\<close>

definition favorite_vertices :: "(edge list \<Rightarrow> edge list) \<Rightarrow> graph \<Rightarrow> string \<Rightarrow> nat \<Rightarrow> vertex list" where
  "favorite_vertices ord g user_name limit =
     take limit
       [w. e \<leftarrow> ord [e. v \<leftarrow> vertices g, v_label v = ''person'',
                         get_property_value (v_props v) ''name'' = Some (PStr user_name),
                         e \<leftarrow> edges g, Some (out_v e) = v_id v],
           w \<leftarrow> vertices g, v_id w = Some (in_v e),
           v_label w = ''recipe'']"

definition count_key :: "edge \<Rightarrow> int" where
  "count_key e = (case edge_count e of Some c \<Rightarrow> c | None \<Rightarrow> 0)"

definition orders_by_count_decr :: "('a \<Rightarrow> edge) \<Rightarrow> ('a list \<Rightarrow> 'a list) \<Rightarrow> bool" where
  "orders_by_count_decr edge_of ord \<longleftrightarrow>
     (\<forall>ts. list_all (\<lambda>t. edge_count (edge_of t) \<noteq> None) ts \<longrightarrow>
        mset (ord ts) = mset ts \<and>
        sorted_wrt (\<lambda>x y. count_key (edge_of x) \<ge> count_key (edge_of y)) (ord ts))"

text \<open>
  \<^verbatim>\<open>g.V().hasLabel(L).has("name","{}").in("has").inE().has("count",gt(1))\<close>
  \<^verbatim>\<open>.order().by("count", decr).outV().hasLabel("person").has("name",neq("{}")).path()\<close>
  with \<^verbatim>\<open>L\<close> either \<^verbatim>\<open>"ingredient"\<close> or \<^verbatim>\<open>"cuisine"\<close>. \<^verbatim>\<open>in("has")\<close> moves from the
  anchor to the sources of its incoming edges labelled \<^verbatim>\<open>has\<close> (the edge is not part of
  the path); \<^verbatim>\<open>inE()\<close> takes every incoming edge, whatever its label;
  \<^verbatim>\<open>has("name", neq(x))\<close> keeps the vertices that have a name and whose name is not the
  string \<^verbatim>\<open>x\<close>. The ordering step, again the parameter \<open>ord\<close>, orders what the
  traversal has reached by then, (anchor, recipe, edge), by the count of the edge. The
  paths are (anchor, recipe, edge, person); object 1 is the recipe.
\<close>

type_synonym rec_path = "vertex \<times> vertex \<times> edge \<times> vertex"

definition recommended_paths ::
  "((vertex \<times> vertex \<times> edge) list \<Rightarrow> (vertex \<times> vertex \<times> edge) list) \<Rightarrow>
   graph \<Rightarrow> string \<Rightarrow> string \<Rightarrow> string \<Rightarrow> rec_path list" where
  "recommended_paths ord g anchor_label anchor_name user_name =
     [(a, r, e, p).
        (a, r, e) \<leftarrow> ord [(a, r, e). a \<leftarrow> vertices g, v_label a = anchor_label,
                              get_property_value (v_props a) ''name'' = Some (PStr anchor_name),
                              h \<leftarrow> edges g, Some (in_v h) = v_id a, e_label h = ''has'',
                              r \<leftarrow> vertices g, v_id r = Some (out_v h),
                              e \<leftarrow> edges g, Some (in_v e) = v_id r,
                              count_gt 1 e],
        p \<leftarrow> vertices g, v_id p = Some (out_v e),
        v_label p = ''person'',
        get_property_value (v_props p) ''name'' \<noteq> None,
        get_property_value (v_props p) ''name'' \<noteq> Some (PStr user_name)]"

definition path_object1 :: "rec_path \<Rightarrow> vertex" where
  "path_object1 path = fst (snd path)"

subsection \<open>Entity repository and relationship ledger\<close>

text \<open>
  \<^verbatim>\<open>add_vertex_if_not_exists(vertex, unique_property_name)\<close>: the first vertex of the
  response if there is one, else the vertex that \<^verbatim>\<open>add_vertex\<close> stores. Here the query
  is its steps, looked up with the label, the property name and the formatted value as
  they are.
\<close>

definition add_vertex_if_not_exists :: "graph \<Rightarrow> vertex \<Rightarrow> string \<Rightarrow> vertex \<times> graph" where
  "add_vertex_if_not_exists g vertex unique_property_name =
     (let property_value = get_property_value (v_props vertex) unique_property_name;
          response = vertices_by_property g (v_label vertex) unique_property_name
                       (format_value property_value)
      in case response of
           r # _ \<Rightarrow> (r, g)
         | [] \<Rightarrow> add_vertex g vertex)"

text \<open>
  The same function with the query as the text that it sends:
  \<^verbatim>\<open>'g.V().hasLabel("{}").has("{}", "{}")'.format(vertex.label, unique_property_name, property_value)\<close>.
  The label, the property name and the value go into the text as they are, each between
  double quotes, with nothing escaped. Modelled from the spec: the service's execution
  of a traversal query, from its text. The service reads the text as Gremlin in Groovy,
  where between double quotes a backslash starts an escape, a dollar an interpolation,
  and a double quote ends the string. \<open>read s\<close> is the string that the service reads where
  the store has put \<open>s\<close> between double quotes, \<open>None\<close> where the text is no longer the
  query with one string in that place; the service then answers with an error, which the
  client raises. The reading is a parameter, and \<open>reads_groovy\<close> says what is used of it: a
  plain string (no double quote, backslash, dollar or line break) is read as itself, and
  a backslash and \<^verbatim>\<open>n\<close> between plain strings are read as one line feed.
\<close>

definition plain :: "string \<Rightarrow> bool" where
  "plain s = list_all (\<lambda>c. c \<notin> set [CHR 0x22, CHR 0x5C, CHR 0x24, CHR 0x0A, CHR 0x0D]) s"

definition reads_groovy :: "(string \<Rightarrow> string option) \<Rightarrow> bool" where
  "reads_groovy read \<longleftrightarrow>
     (\<forall>s. plain s \<longrightarrow> read s = Some s) \<and>
     (\<forall>s t. plain s \<and> plain t \<longrightarrow>
        read (s @ [CHR 0x5C, CHR ''n''] @ t) = Some (s @ [CHR 0x0A] @ t))"

definition add_vertex_if_not_exists_text ::
  "(string \<Rightarrow> string option) \<Rightarrow> graph \<Rightarrow> vertex \<Rightarrow> string \<Rightarrow> error + vertex \<times> graph" where
  "add_vertex_if_not_exists_text read g vertex unique_property_name =
     (let property_value = get_property_value (v_props vertex) unique_property_name
      in case (read (v_label vertex), read unique_property_name,
               read (format_value property_value)) of
           (Some label, Some name, Some value) \<Rightarrow>
             (case vertices_by_property g label name value of
                r # _ \<Rightarrow> Inr (r, g)
              | [] \<Rightarrow> Inr (add_vertex g vertex))
         | _ \<Rightarrow> Inl QueryError)"

text \<open>
  One such reading, for examples: the escapes \<^verbatim>\<open>n t r b f\<close>, backslash, the two quotes
  and the dollar after a backslash; any other character after a backslash, a bare double
  quote or dollar, and a line break are refused.
\<close>

definition escape_char :: "char \<Rightarrow> char option" where
  "escape_char e =
     map_of [(CHR ''n'', CHR 0x0A), (CHR ''t'', CHR 0x09), (CHR ''r'', CHR 0x0D),
             (CHR ''b'', CHR 0x08), (CHR ''f'', CHR 0x0C), (CHR 0x5C, CHR 0x5C),
             (CHR 0x22, CHR 0x22), (CHR 0x27, CHR 0x27), (CHR 0x24, CHR 0x24)] e"

fun spliced :: "string \<Rightarrow> string option" where
  "spliced [] = Some []"
| "spliced (c # cs) =
     (if c = CHR 0x5C
      then (case cs of
              [] \<Rightarrow> None
            | e # rest \<Rightarrow>
                (case escape_char e of
                   None \<Rightarrow> None
                 | Some x \<Rightarrow> map_option ((#) x) (spliced rest)))
      else if c \<in> set [CHR 0x22, CHR 0x24, CHR 0x0A, CHR 0x0D] then None
      else map_option ((#) c) (spliced cs))"

text \<open>\<^verbatim>\<open>find_vertex(label, property_name, property_value)\<close>.\<close>

definition find_vertex :: "graph \<Rightarrow> string \<Rightarrow> string \<Rightarrow> string \<Rightarrow> vertex option" where
  "find_vertex g label property_name property_value =
     (case vertices_by_property g label property_name property_value of
        r # _ \<Rightarrow> Some r
      | [] \<Rightarrow> None)"

text \<open>\<^verbatim>\<open>add_edge_if_not_exists(edge)\<close>.\<close>

definition add_edge_if_not_exists :: "graph \<Rightarrow> edge \<Rightarrow> graph" where
  "add_edge_if_not_exists g edge =
     (let response = edge_paths g (out_v edge) (in_v edge)
      in if length response > 0 then g else add_edge g edge)"

text \<open>
  \<^verbatim>\<open>add_update_edge(edge)\<close>. With a response, the edge worked on is object 1 of the first
  path; \<^verbatim>\<open>count += edge_count\<close> raises \<^verbatim>\<open>TypeError\<close> when the stored count is a string.
\<close>

definition add_update_edge :: "graph \<Rightarrow> edge \<Rightarrow> error + graph" where
  "add_update_edge g edge =
     (case edge_paths g (out_v edge) (in_v edge) of
        path # _ \<Rightarrow>
          (let edge = edge_path_object1 path;
               edge_count = get_property_value (e_props edge) ''count''
           in case edge_count of
                None \<Rightarrow>
                  Inr (update_edge g
                    (edge\<lparr>e_props := set_property_value (e_props edge) ''count'' (PInt (0 + 1))\<rparr>))
              | Some (PInt c) \<Rightarrow>
                  Inr (update_edge g
                    (edge\<lparr>e_props := set_property_value (e_props edge) ''count'' (PInt (0 + c + 1))\<rparr>))
              | Some (PStr s) \<Rightarrow> Inl TypeError)
      | [] \<Rightarrow> Inr (add_edge g edge))"

text \<open>Repeated calls with the same edge, stopping at the first error.\<close>

fun add_update_edge_times :: "nat \<Rightarrow> graph \<Rightarrow> edge \<Rightarrow> error + graph" where
  "add_update_edge_times 0 g edge = Inr g"
| "add_update_edge_times (Suc n) g edge =
     (case add_update_edge g edge of
        Inl err \<Rightarrow> Inl err
      | Inr g' \<Rightarrow> add_update_edge_times n g' edge)"

fun add_edge_if_not_exists_times :: "nat \<Rightarrow> graph \<Rightarrow> edge \<Rightarrow> graph" where
  "add_edge_if_not_exists_times 0 g edge = g"
| "add_edge_if_not_exists_times (Suc n) g edge =
     add_edge_if_not_exists_times n (add_edge_if_not_exists g edge) edge"

text \<open>The edges of a graph that run from one vertex identifier to another.\<close>

definition edges_between :: "graph \<Rightarrow> nat \<Rightarrow> nat \<Rightarrow> edge list" where
  "edges_between g a b = filter (\<lambda>e. out_v e = a \<and> in_v e = b) (edges g)"

definition has_vertex :: "graph \<Rightarrow> nat \<Rightarrow> bool" where
  "has_vertex g a = (Some a \<in> set (map v_id (vertices g)))"

subsection \<open>Recommendation engine\<close>

text \<open>
  The dictionaries \<^verbatim>\<open>{'id': ..., 'title': ...}\<close> that \<^verbatim>\<open>find_favorite_recipes_for_user\<close>
  returns and \<^verbatim>\<open>{'id': ..., 'title': ..., 'recommendedUserCount': ...}\<close> that
  \<^verbatim>\<open>get_recommended_recipes\<close> returns.
\<close>

record favorite =
  f_id :: "pval option"
  f_title :: "pval option"

record recommendation =
  r_id :: "pval option"
  r_title :: "pval option"
  recommendedUserCount :: int

definition find_favorite_recipes_for_user ::
  "(edge list \<Rightarrow> edge list) \<Rightarrow> graph \<Rightarrow> vertex \<Rightarrow> nat \<Rightarrow> favorite list" where
  "find_favorite_recipes_for_user ord g user_vertex count' =
     (let recipe_vertices =
            favorite_vertices ord g
              (format_value (get_property_value (v_props user_vertex) ''name'')) count'
      in if length recipe_vertices > 0
         then map (\<lambda>recipe_vertex.
                \<lparr>f_id = get_property_value (v_props recipe_vertex) ''name'',
                 f_title = get_property_value (v_props recipe_vertex) ''title''\<rparr>) recipe_vertices
         else [])"

text \<open>
  \<^verbatim>\<open>existing_recipes[0]['recommendedUserCount'] += 1\<close> changes the dictionary that is
  also in \<^verbatim>\<open>recipes\<close>: the first entry of \<^verbatim>\<open>recipes\<close> with the recipe's id.
\<close>

fun increment_first :: "pval option \<Rightarrow> recommendation list \<Rightarrow> recommendation list" where
  "increment_first recipe_id [] = []"
| "increment_first recipe_id (x # xs) =
     (if r_id x = recipe_id then x\<lparr>recommendedUserCount := recommendedUserCount x + 1\<rparr> # xs
      else x # increment_first recipe_id xs)"

text \<open>The body of the loop of \<^verbatim>\<open>get_recommended_recipes\<close>, for one path.\<close>

definition reduce_path :: "int \<Rightarrow> recommendation list \<Rightarrow> rec_path \<Rightarrow> recommendation list" where
  "reduce_path count' recipes path =
     (let recipe_vertex = path_object1 path;
          recipe_id = get_property_value (v_props recipe_vertex) ''name'';
          existing_recipes = filter (\<lambda>x. r_id x = recipe_id) recipes
      in if length existing_recipes = 0
         then (if int (length recipes) \<ge> count' then recipes
               else recipes @
                 [\<lparr>r_id = recipe_id,
                   r_title = get_property_value (v_props recipe_vertex) ''title'',
                   recommendedUserCount = 1\<rparr>])
         else increment_first recipe_id recipes)"

text \<open>
  \<^verbatim>\<open>get_recommended_recipes(query, count)\<close>, given the response \<^verbatim>\<open>paths\<close> of the graph
  service to the query; then \<^verbatim>\<open>find_recommended_recipes_for_ingredient\<close> and
  \<^verbatim>\<open>find_recommended_recipes_for_cuisine\<close>, which normalise the name with the runtime's
  \<open>is_space\<close> and \<open>lower\<close>, here on bytes.
\<close>

definition get_recommended_recipes :: "rec_path list \<Rightarrow> int \<Rightarrow> recommendation list" where
  "get_recommended_recipes paths count' =
     (if length paths > 0 then foldl (reduce_path count') [] paths else [])"

definition find_recommended_recipes_for_ingredient ::
  "(char \<Rightarrow> bool) \<Rightarrow> (string \<Rightarrow> string) \<Rightarrow>
   ((vertex \<times> vertex \<times> edge) list \<Rightarrow> (vertex \<times> vertex \<times> edge) list) \<Rightarrow>
   graph \<Rightarrow> string \<Rightarrow> vertex \<Rightarrow> int \<Rightarrow> recommendation list" where
  "find_recommended_recipes_for_ingredient is_space lower ord g ingredients_str user_vertex count' =
     (let ingredients_str = get_unique_ingredients_name is_space lower CHR '','' ingredients_str
      in get_recommended_recipes
           (recommended_paths ord g ''ingredient'' ingredients_str
              (format_value (get_property_value (v_props user_vertex) ''name'')))
           count')"

definition find_recommended_recipes_for_cuisine ::
  "(char \<Rightarrow> bool) \<Rightarrow> (string \<Rightarrow> string) \<Rightarrow>
   ((vertex \<times> vertex \<times> edge) list \<Rightarrow> (vertex \<times> vertex \<times> edge) list) \<Rightarrow>
   graph \<Rightarrow> string \<Rightarrow> vertex \<Rightarrow> int \<Rightarrow> recommendation list" where
  "find_recommended_recipes_for_cuisine is_space lower ord g cuisine user_vertex count' =
     (let cuisine = get_unique_cuisine_name is_space lower cuisine
      in get_recommended_recipes
           (recommended_paths ord g ''cuisine'' cuisine
              (format_value (get_property_value (v_props user_vertex) ''name'')))
           count')"

text \<open>
  What the reducer is expected to compute, said over the whole response: the recipe ids
  in first-seen order, and for an id its entry (the title of its first path, the number
  of its paths).
\<close>

definition path_recipe_id :: "rec_path \<Rightarrow> pval option" where
  "path_recipe_id path = get_property_value (v_props (path_object1 path)) ''name''"

definition path_recipe_title :: "rec_path \<Rightarrow> pval option" where
  "path_recipe_title path = get_property_value (v_props (path_object1 path)) ''title''"

definition first_seen :: "'a list \<Rightarrow> 'a list" where
  "first_seen ks = rev (remdups (rev ks))"

definition first_title :: "rec_path list \<Rightarrow> pval option \<Rightarrow> pval option" where
  "first_title paths k =
     (case map_of (map (\<lambda>p. (path_recipe_id p, path_recipe_title p)) paths) k of
        Some t \<Rightarrow> t | None \<Rightarrow> None)"

definition entry_for :: "rec_path list \<Rightarrow> pval option \<Rightarrow> recommendation" where
  "entry_for paths k =
     \<lparr>r_id = k, r_title = first_title paths k,
      recommendedUserCount = int (count_list (map path_recipe_id paths) k)\<rparr>"

text \<open>A response used in examples: paths through one anchor, each with its own person.\<close>

definition example_recipe :: "nat \<Rightarrow> string \<Rightarrow> string \<Rightarrow> vertex" where
  "example_recipe i name title =
     \<lparr>v_id = Some i, v_label = ''recipe'',
      v_props = [(''name'', PStr name), (''title'', PStr title)]\<rparr>"

definition example_path :: "vertex \<Rightarrow> nat \<Rightarrow> rec_path" where
  "example_path r i =
     (\<lparr>v_id = Some 0, v_label = ''ingredient'', v_props = [(''name'', PStr ''egg'')]\<rparr>, r,
      \<lparr>e_id = Some (100 + i), e_label = ''selects'', out_v = 50 + i, in_v = 0,
        e_props = [(''count'', PInt 2)]\<rparr>,
      \<lparr>v_id = Some (50 + i), v_label = ''person'', v_props = [(''name'', PStr ''U'')]\<rparr>)"

text \<open>
  The edges that the store builds: \<^verbatim>\<open>Edge('selects', a, b, {'count': 1})\<close> and
  \<^verbatim>\<open>Edge('has', a, b)\<close>.
\<close>

definition selects_edge :: "nat \<Rightarrow> nat \<Rightarrow> edge" where
  "selects_edge a b =
     \<lparr>e_id = None, e_label = ''selects'', out_v = a, in_v = b, e_props = [(''count'', PInt 1)]\<rparr>"

definition has_edge :: "nat \<Rightarrow> nat \<Rightarrow> edge" where
  "has_edge a b = \<lparr>e_id = None, e_label = ''has'', out_v = a, in_v = b, e_props = []\<rparr>"

text \<open>No two stored edges run between the same ordered pair of vertex identifiers.\<close>

definition one_edge_per_pair :: "graph \<Rightarrow> bool" where
  "one_edge_per_pair g = distinct (map (\<lambda>e. (out_v e, in_v e)) (edges g))"

text \<open>A graph used in examples: a person, a recipe and an ingredient, and no edge.\<close>

definition example_graph :: graph where
  "example_graph =
     \<lparr>vertices =
        [\<lparr>v_id = Some 0, v_label = ''person'', v_props = [(''name'', PStr ''U1'')]\<rparr>,
         \<lparr>v_id = Some 1, v_label = ''recipe'',
           v_props = [(''name'', PStr ''42''), (''title'', PStr ''Omelette''), (''detail'', PStr ''Whisk.'')]\<rparr>,
         \<lparr>v_id = Some 2, v_label = ''ingredient'',
           v_props = [(''name'', PStr ''egg''), (''detail'', PStr ''[]'')]\<rparr>],
      edges = [], next_id = 3\<rparr>"

text \<open>
  The vertex that \<^verbatim>\<open>add_ingredient\<close> passes for the ingredient string \<^verbatim>\<open>rice\noodles\<close>
  (a backslash and the letter \<^verbatim>\<open>n\<close> in the middle), with the given detail.
\<close>

definition noodles :: "string \<Rightarrow> vertex" where
  "noodles detail =
     \<lparr>v_id = None, v_label = ''ingredient'',
      v_props = [(''name'', PStr (''rice'' @ [CHR 0x5C] @ ''noodles'')), (''detail'', PStr detail)]\<rparr>"

subsection \<open>Schema bootstrapper\<close>

text \<open>
  Modelled from the spec: the schema objects of the client library: \<^verbatim>\<open>PropertyKey(name, data_type, cardinality)\<close>,
  \<^verbatim>\<open>VertexLabel(name)\<close>, \<^verbatim>\<open>EdgeLabel(name)\<close>,
  \<^verbatim>\<open>VertexIndex(name, property_keys, composite, unique)\<close> and
  \<^verbatim>\<open>Schema(property_keys, vertex_labels, edge_labels, vertex_indexes, edge_indexes)\<close>.
\<close>

record property_key =
  pk_name :: string
  pk_data_type :: string
  pk_cardinality :: string

record vertex_index =
  vi_name :: string
  vi_property_keys :: "string list"
  vi_composite :: bool
  vi_unique :: bool

record schema =
  property_keys :: "property_key list option"
  vertex_labels :: "string list"
  edge_labels :: "string list"
  vertex_indexes :: "vertex_index list"
  edge_indexes :: "vertex_index list"

text \<open>
  Modelled from the spec: the operations \<^emph>\<open>list graphs\<close>, \<^emph>\<open>create graph\<close>,
  \<^emph>\<open>select active graph\<close> and \<^emph>\<open>get/save schema\<close> of the graph service.
  The part of the graph service that \<^verbatim>\<open>init\<close> talks to: the identifiers of the graphs
  that exist, the schema saved for a graph (none for a graph just created), the graph
  that the client has selected, and the calls received so far. \<^verbatim>\<open>get_schema\<close> returns
  the schema saved for the selected graph; \<^verbatim>\<open>save_schema\<close> saves one for it.
\<close>

datatype call = GetGraphs | CreateGraph string | SetGraph string | GetSchema | SaveSchema schema

record service =
  graph_ids :: "string list"
  schemas :: "(string \<times> schema) list"
  selected :: "string option"
  calls :: "call list"

definition empty_service :: service where
  "empty_service = \<lparr>graph_ids = [], schemas = [], selected = None, calls = []\<rparr>"

definition get_graphs :: "service \<Rightarrow> string list \<times> service" where
  "get_graphs b = (graph_ids b, b\<lparr>calls := calls b @ [GetGraphs]\<rparr>)"

definition create_graph :: "service \<Rightarrow> string \<Rightarrow> service" where
  "create_graph b graph_id =
     b\<lparr>graph_ids := graph_ids b @ [graph_id], calls := calls b @ [CreateGraph graph_id]\<rparr>"

definition set_graph :: "service \<Rightarrow> string \<Rightarrow> service" where
  "set_graph b graph_id = b\<lparr>selected := Some graph_id, calls := calls b @ [SetGraph graph_id]\<rparr>"

definition get_schema :: "service \<Rightarrow> schema option \<times> service" where
  "get_schema b =
     ((case selected b of None \<Rightarrow> None | Some graph_id \<Rightarrow> map_of (schemas b) graph_id),
      b\<lparr>calls := calls b @ [GetSchema]\<rparr>)"

definition save_schema :: "service \<Rightarrow> schema \<Rightarrow> service" where
  "save_schema b s =
     b\<lparr>schemas := (case selected b of None \<Rightarrow> schemas b
                    | Some graph_id \<Rightarrow> AList.update graph_id s (schemas b)),
       calls := calls b @ [SaveSchema s]\<rparr>"

text \<open>The schema that \<^verbatim>\<open>init\<close> builds.\<close>

definition store_schema :: schema where
  "store_schema =
     \<lparr>property_keys = Some
        [\<lparr>pk_name = ''name'', pk_data_type = ''String'', pk_cardinality = ''SINGLE''\<rparr>,
         \<lparr>pk_name = ''title'', pk_data_type = ''String'', pk_cardinality = ''SINGLE''\<rparr>,
         \<lparr>pk_name = ''detail'', pk_data_type = ''String'', pk_cardinality = ''SINGLE''\<rparr>],
      vertex_labels = [''person'', ''ingredient'', ''cuisine'', ''recipe''],
      edge_labels = [''selects''],
      vertex_indexes =
        [\<lparr>vi_name = ''vertexByName'', vi_property_keys = [''name''],
          vi_composite = True, vi_unique = True\<rparr>],
      edge_indexes = []\<rparr>"

text \<open>\<^verbatim>\<open>init\<close>, for a store whose \<^verbatim>\<open>graph_id\<close> is the second argument.\<close>

definition init :: "service \<Rightarrow> string \<Rightarrow> service" where
  "init b graph_id =
     (let (graph_ids, b) = get_graphs b;
          graph_exists = (graph_id \<in> set graph_ids);
          b = (if \<not> graph_exists then create_graph b graph_id else b);
          b = set_graph b graph_id;
          (schema, b) = get_schema b;
          schema_exists =
            (case schema of
               None \<Rightarrow> False
             | Some s \<Rightarrow> (case property_keys s of None \<Rightarrow> False | Some ks \<Rightarrow> length ks > 0))
      in if \<not> schema_exists then save_schema b store_schema else b)"

text \<open>
  Names for the parts of the favourites traversal: the outgoing edges of the person
  vertices with a given name, the recipe vertices at the head of an edge, and the
  outgoing edges that lead to a recipe, each with that recipe.
\<close>

definition user_out_edges :: "graph \<Rightarrow> string \<Rightarrow> edge list" where
  "user_out_edges g user_name =
     [e. v \<leftarrow> vertices g, v_label v = ''person'',
         get_property_value (v_props v) ''name'' = Some (PStr user_name),
         e \<leftarrow> edges g, Some (out_v e) = v_id v]"

definition recipe_targets :: "graph \<Rightarrow> edge \<Rightarrow> vertex list" where
  "recipe_targets g e = [w. w \<leftarrow> vertices g, v_id w = Some (in_v e), v_label w = ''recipe'']"

definition recipe_edges :: "graph \<Rightarrow> string \<Rightarrow> (edge \<times> vertex) list" where
  "recipe_edges g user_name = [(e, w). e \<leftarrow> user_out_edges g user_name, w \<leftarrow> recipe_targets g e]"

definition favorite_of :: "vertex \<Rightarrow> favorite" where
  "favorite_of recipe_vertex =
     \<lparr>f_id = get_property_value (v_props recipe_vertex) ''name'',
      f_title = get_property_value (v_props recipe_vertex) ''title''\<rparr>"

text \<open>
  A user with edges to the recipes A (count 5), B (count 2) and C (count 5).
\<close>

definition favorites_user :: vertex where
  "favorites_user = \<lparr>v_id = Some 0, v_label = ''person'', v_props = [(''name'', PStr ''U'')]\<rparr>"

definition favorites_example :: graph where
  "favorites_example =
     \<lparr>vertices =
        [favorites_user,
         \<lparr>v_id = Some 1, v_label = ''recipe'', v_props = [(''name'', PStr ''A''), (''title'', PStr ''Apple pie'')]\<rparr>,
         \<lparr>v_id = Some 2, v_label = ''recipe'', v_props = [(''name'', PStr ''B''), (''title'', PStr ''Bread'')]\<rparr>,
         \<lparr>v_id = Some 3, v_label = ''recipe'', v_props = [(''name'', PStr ''C''), (''title'', PStr ''Curry'')]\<rparr>],
      edges =
        [\<lparr>e_id = Some 4, e_label = ''selects'', out_v = 0, in_v = 1, e_props = [(''count'', PInt 5)]\<rparr>,
         \<lparr>e_id = Some 5, e_label = ''selects'', out_v = 0, in_v = 2, e_props = [(''count'', PInt 2)]\<rparr>,
         \<lparr>e_id = Some 6, e_label = ''selects'', out_v = 0, in_v = 3, e_props = [(''count'', PInt 5)]\<rparr>],
      next_id = 7\<rparr>"

text \<open>An ordering step for examples: a stable sort by descending count.\<close>

definition sort_by_count_decr :: "('a \<Rightarrow> edge) \<Rightarrow> 'a list \<Rightarrow> 'a list" where
  "sort_by_count_decr edge_of ts = sort_key (\<lambda>t. - count_key (edge_of t)) ts"

subsection \<open>The operations of the store\<close>

text \<open>
  The operations that the bot calls; those that normalise a name take the runtime's
  \<open>is_space\<close> and \<open>lower\<close>, on bytes. Each returns the graph as the call leaves it,
  also when the call raises, and then either the exception or the vertex returned.
  An edge is built from the identifiers of two vertices; with a vertex that has no
  identifier the query string reads \<^verbatim>\<open>g.V(None)\<close>, which the graph service rejects:
  \<open>QueryError\<close>. \<^verbatim>\<open>add_update_edge\<close> raises before it writes, so the graph of a call
  that raises is the graph before the call.

  \<^verbatim>\<open>add_user(user_id)\<close>.
\<close>

definition add_user :: "graph \<Rightarrow> string \<Rightarrow> vertex \<times> graph" where
  "add_user g user_id =
     add_vertex_if_not_exists g
       \<lparr>v_id = None, v_label = ''person'', v_props = [(''name'', PStr user_id)]\<rparr> ''name''"

text \<open>
  \<^verbatim>\<open>record_ingredient_request_for_user(ingredient_vertex, user_vertex)\<close> and
  \<^verbatim>\<open>record_cuisine_request_for_user(cuisine_vertex, user_vertex)\<close>.
\<close>

definition record_ingredient_request_for_user ::
  "graph \<Rightarrow> vertex \<Rightarrow> vertex \<Rightarrow> graph \<times> error option" where
  "record_ingredient_request_for_user g ingredient_vertex user_vertex =
     (case (v_id user_vertex, v_id ingredient_vertex) of
        (Some u, Some i) \<Rightarrow>
          (case add_update_edge g (selects_edge u i) of
             Inl err \<Rightarrow> (g, Some err)
           | Inr g' \<Rightarrow> (g', None))
      | _ \<Rightarrow> (g, Some QueryError))"

definition record_cuisine_request_for_user ::
  "graph \<Rightarrow> vertex \<Rightarrow> vertex \<Rightarrow> graph \<times> error option" where
  "record_cuisine_request_for_user g cuisine_vertex user_vertex =
     (case (v_id user_vertex, v_id cuisine_vertex) of
        (Some u, Some c) \<Rightarrow>
          (case add_update_edge g (selects_edge u c) of
             Inl err \<Rightarrow> (g, Some err)
           | Inr g' \<Rightarrow> (g', None))
      | _ \<Rightarrow> (g, Some QueryError))"

text \<open>
  \<^verbatim>\<open>add_ingredient(ingredients_str, matching_recipes, user_vertex)\<close> and
  \<^verbatim>\<open>add_cuisine(cuisine_str, matching_recipes, user_vertex)\<close>; the argument
  \<open>matching_recipes\<close> is the text \<^verbatim>\<open>json.dumps(matching_recipes)\<close>.
\<close>

definition add_ingredient ::
  "(char \<Rightarrow> bool) \<Rightarrow> (string \<Rightarrow> string) \<Rightarrow>
   graph \<Rightarrow> string \<Rightarrow> string \<Rightarrow> vertex \<Rightarrow> graph \<times> (error + vertex)" where
  "add_ingredient is_space lower g ingredients_str matching_recipes user_vertex =
     (let (ingredient_vertex, g) =
            add_vertex_if_not_exists g
              \<lparr>v_id = None, v_label = ''ingredient'',
                v_props = [(''name'', PStr (get_unique_ingredients_name is_space lower CHR '',''
                                                  ingredients_str)),
                           (''detail'', PStr matching_recipes)]\<rparr> ''name''
      in case record_ingredient_request_for_user g ingredient_vertex user_vertex of
           (g, Some err) \<Rightarrow> (g, Inl err)
         | (g, None) \<Rightarrow> (g, Inr ingredient_vertex))"

definition add_cuisine ::
  "(char \<Rightarrow> bool) \<Rightarrow> (string \<Rightarrow> string) \<Rightarrow>
   graph \<Rightarrow> string \<Rightarrow> string \<Rightarrow> vertex \<Rightarrow> graph \<times> (error + vertex)" where
  "add_cuisine is_space lower g cuisine_str matching_recipes user_vertex =
     (let (cuisine_vertex, g) =
            add_vertex_if_not_exists g
              \<lparr>v_id = None, v_label = ''cuisine'',
                v_props = [(''name'', PStr (get_unique_cuisine_name is_space lower cuisine_str)),
                           (''detail'', PStr matching_recipes)]\<rparr> ''name''
      in case record_cuisine_request_for_user g cuisine_vertex user_vertex of
           (g, Some err) \<Rightarrow> (g, Inl err)
         | (g, None) \<Rightarrow> (g, Inr cuisine_vertex))"

text \<open>
  \<^verbatim>\<open>record_recipe_request_for_user(recipe_vertex, ingredient_cuisine_vertex, user_vertex)\<close>.
\<close>

definition record_recipe_request_for_user ::
  "graph \<Rightarrow> vertex \<Rightarrow> vertex option \<Rightarrow> vertex \<Rightarrow> graph \<times> error option" where
  "record_recipe_request_for_user g recipe_vertex ingredient_cuisine_vertex user_vertex =
     (case (v_id user_vertex, v_id recipe_vertex) of
        (Some u, Some r) \<Rightarrow>
          (case add_update_edge g (selects_edge u r) of
             Inl err \<Rightarrow> (g, Some err)
           | Inr g \<Rightarrow>
               (case ingredient_cuisine_vertex of
                  None \<Rightarrow> (g, None)
                | Some icv \<Rightarrow>
                    (case v_id icv of
                       None \<Rightarrow> (g, Some QueryError)
                     | Some i \<Rightarrow>
                         (case add_update_edge g (selects_edge i r) of
                            Inl err \<Rightarrow> (g, Some err)
                          | Inr g \<Rightarrow> (add_edge_if_not_exists g (has_edge r i), None)))))
      | _ \<Rightarrow> (g, Some QueryError))"

text \<open>
  \<^verbatim>\<open>add_recipe(recipe_id, recipe_title, recipe_detail, ingredient_cuisine_vertex, user_vertex)\<close>.
\<close>

definition add_recipe ::
  "(char \<Rightarrow> bool) \<Rightarrow> (string \<Rightarrow> string) \<Rightarrow>
   graph \<Rightarrow> pval \<Rightarrow> string \<Rightarrow> string \<Rightarrow> vertex option \<Rightarrow> vertex \<Rightarrow> graph \<times> (error + vertex)" where
  "add_recipe is_space lower g recipe_id recipe_title recipe_detail ingredient_cuisine_vertex
     user_vertex =
     (let (recipe_vertex, g) =
            add_vertex_if_not_exists g
              \<lparr>v_id = None, v_label = ''recipe'',
                v_props = [(''name'', PStr (get_unique_recipe_name is_space lower recipe_id)),
                           (''title'', PStr (strip is_space recipe_title)),
                           (''detail'', PStr recipe_detail)]\<rparr> ''name''
      in case record_recipe_request_for_user g recipe_vertex ingredient_cuisine_vertex user_vertex of
           (g, Some err) \<Rightarrow> (g, Inl err)
         | (g, None) \<Rightarrow> (g, Inr recipe_vertex))"

text \<open>
  The graphs that the store can bring about: from the empty graph, by any of its four
  adding operations with any arguments, under any runtime (\<open>is_space\<close>, \<open>lower\<close>),
  whether the call returns or raises.
\<close>

inductive reachable :: "graph \<Rightarrow> bool" where
  reachable_empty: "reachable empty_graph"
| reachable_add_user: "reachable g \<Longrightarrow> reachable (snd (add_user g user_id))"
| reachable_add_ingredient:
    "reachable g \<Longrightarrow>
     reachable (fst (add_ingredient is_space lower g ingredients_str matching_recipes user_vertex))"
| reachable_add_cuisine:
    "reachable g \<Longrightarrow>
     reachable (fst (add_cuisine is_space lower g cuisine_str matching_recipes user_vertex))"
| reachable_add_recipe:
    "reachable g \<Longrightarrow>
     reachable (fst (add_recipe is_space lower g recipe_id recipe_title recipe_detail
                       ingredient_cuisine_vertex user_vertex))"

text \<open>
  What holds of every such graph: stored vertices have identifiers below the next free
  one, no two of them share an identifier, every stored vertex has a string for a name,
  no two share label and name, and every edge is labelled \<^verbatim>\<open>selects\<close> and has an
  integer count, or is labelled \<^verbatim>\<open>has\<close> and leaves a recipe vertex.
\<close>

definition has_from_recipe :: "graph \<Rightarrow> edge \<Rightarrow> bool" where
  "has_from_recipe g e =
     (e_label e = ''selects'' \<and> edge_count e \<noteq> None \<or>
      e_label e = ''has'' \<and>
        list_ex (\<lambda>r. v_id r = Some (out_v e) \<and> v_label r = ''recipe'') (vertices g))"

definition named :: "vertex \<Rightarrow> bool" where
  "named v = (case get_property_value (v_props v) ''name'' of Some (PStr s) \<Rightarrow> True | _ \<Rightarrow> False)"

definition store_invariant :: "graph \<Rightarrow> bool" where
  "store_invariant g =
     (list_all (\<lambda>v. case v_id v of Some i \<Rightarrow> i < next_id g | None \<Rightarrow> False) (vertices g) \<and>
      distinct (map v_id (vertices g)) \<and>
      list_all named (vertices g) \<and>
      distinct (map (\<lambda>v. (v_label v, get_property_value (v_props v) ''name'')) (vertices g)) \<and>
      list_all (has_from_recipe g) (edges g))"

text \<open>The triples that the recommendation traversal hands to its ordering step.\<close>

definition recommended_triples ::
  "graph \<Rightarrow> string \<Rightarrow> string \<Rightarrow> (vertex \<times> vertex \<times> edge) list" where
  "recommended_triples g anchor_label anchor_name =
     [(a, r, e). a \<leftarrow> vertices g, v_label a = anchor_label,
                 get_property_value (v_props a) ''name'' = Some (PStr anchor_name),
                 h \<leftarrow> edges g, Some (in_v h) = v_id a, e_label h = ''has'',
                 r \<leftarrow> vertices g, v_id r = Some (out_v h),
                 e \<leftarrow> edges g, Some (in_v e) = v_id r,
                 count_gt 1 e]"

text \<open>
  A recipe that every other user selected at most in the way a first touch does: each
  edge into it from a person vertex with another name than the given one has count 1.
\<close>

definition selected_once_by_others :: "graph \<Rightarrow> vertex \<Rightarrow> string \<Rightarrow> bool" where
  "selected_once_by_others g recipe_vertex user_name =
     list_all (\<lambda>e. list_all (\<lambda>p.
         Some (in_v e) = v_id recipe_vertex \<and> v_id p = Some (out_v e) \<and> v_label p = ''person'' \<and>
         get_property_value (v_props p) ''name'' \<noteq> Some (PStr user_name)
           \<longrightarrow> edge_count e = Some 1) (vertices g)) (edges g)"

text \<open>
  A graph for examples: user W asked for egg, chose recipe 42 twice and recipe 7 once;
  user U has chosen nothing.
\<close>

definition ex_w :: vertex where
  "ex_w = \<lparr>v_id = Some 0, v_label = ''person'', v_props = [(''name'', PStr ''W'')]\<rparr>"

definition ex_u :: vertex where
  "ex_u = \<lparr>v_id = Some 1, v_label = ''person'', v_props = [(''name'', PStr ''U'')]\<rparr>"

definition ex_egg :: vertex where
  "ex_egg = \<lparr>v_id = Some 2, v_label = ''ingredient'',
             v_props = [(''name'', PStr ''egg''), (''detail'', PStr ''[]'')]\<rparr>"

definition ex_omelette :: vertex where
  "ex_omelette = \<lparr>v_id = Some 4, v_label = ''recipe'',
     v_props = [(''name'', PStr ''42''), (''title'', PStr ''Omelette''), (''detail'', PStr ''Whisk.'')]\<rparr>"

definition ex_pancake :: vertex where
  "ex_pancake = \<lparr>v_id = Some 8, v_label = ''recipe'',
     v_props = [(''name'', PStr ''7''), (''title'', PStr ''Pancake''), (''detail'', PStr ''Fry.'')]\<rparr>"

definition ex_w_omelette :: edge where
  "ex_w_omelette = \<lparr>e_id = Some 5, e_label = ''selects'', out_v = 0, in_v = 4,
                     e_props = [(''count'', PInt 2)]\<rparr>"

definition recommend_example :: graph where
  "recommend_example =
     \<lparr>vertices = [ex_w, ex_u, ex_egg, ex_omelette, ex_pancake],
      edges =
        [\<lparr>e_id = Some 3, e_label = ''selects'', out_v = 0, in_v = 2, e_props = [(''count'', PInt 1)]\<rparr>,
         ex_w_omelette,
         \<lparr>e_id = Some 6, e_label = ''selects'', out_v = 2, in_v = 4, e_props = [(''count'', PInt 2)]\<rparr>,
         \<lparr>e_id = Some 7, e_label = ''has'', out_v = 4, in_v = 2, e_props = []\<rparr>,
         \<lparr>e_id = Some 9, e_label = ''selects'', out_v = 0, in_v = 8, e_props = [(''count'', PInt 1)]\<rparr>,
         \<lparr>e_id = Some 10, e_label = ''selects'', out_v = 2, in_v = 8, e_props = [(''count'', PInt 1)]\<rparr>,
         \<lparr>e_id = Some 11, e_label = ''has'', out_v = 8, in_v = 2, e_props = []\<rparr>],
      next_id = 12\<rparr>"

subsection \<open>Facts about the string operations\<close>

lemma split_nonempty: "split c s \<noteq> []"
  by (induction s) (auto split: list.splits)

lemma split_not_space_lstrip:
  "\<not> is_space c \<Longrightarrow>
   map (strip is_space) (split c (dropWhile is_space s)) = map (strip is_space) (split c s)"
proof (induction s)
  case Nil
  then show ?case by simp
next
  case (Cons x xs)
  show ?case
  proof (cases "is_space x")
    case True
    with Cons.prems have "x \<noteq> c" by auto
    obtain t ts where ts: "split c xs = t # ts"
      using split_nonempty [of c xs] by (cases "split c xs") auto
    have "strip is_space (x # t) = strip is_space t" using True by (simp add: strip_def)
    with True \<open>x \<noteq> c\<close> ts Cons show ?thesis by simp
  next
    case False
    then show ?thesis by simp
  qed
qed

lemma split_snoc:
  "x \<noteq> c \<Longrightarrow> split c (s @ [x]) = butlast (split c s) @ [last (split c s) @ [x]]"
proof (induction s)
  case Nil
  then show ?case by simp
next
  case (Cons y ys)
  obtain t ts where ts: "split c ys = t # ts"
    using split_nonempty [of c ys] by (cases "split c ys") auto
  show ?case using Cons ts by (auto split: list.splits)
qed

lemma strip_snoc_space:
  assumes "is_space x"
  shows "strip is_space (t @ [x]) = strip is_space t"
proof (cases "\<forall>y\<in>set t. is_space y")
  case True
  with assms have "dropWhile is_space (t @ [x]) = []" "dropWhile is_space t = []"
    by simp_all
  then show ?thesis by (simp only: strip_def)
next
  case False
  then obtain y where "y \<in> set t" "\<not> is_space y" by blast
  then have "dropWhile is_space (t @ [x]) = dropWhile is_space t @ [x]"
    by (rule dropWhile_append1)
  with assms show ?thesis by (simp add: strip_def)
qed

lemma map_strip_split_snoc_space:
  assumes "is_space x" "\<not> is_space c"
  shows "map (strip is_space) (split c (s @ [x])) = map (strip is_space) (split c s)"
proof -
  from assms have "x \<noteq> c" by auto
  have ne: "split c s \<noteq> []" by (rule split_nonempty)
  have "map (strip is_space) (split c (s @ [x]))
          = map (strip is_space) (butlast (split c s)) @ [strip is_space (last (split c s))]"
    using split_snoc [OF \<open>x \<noteq> c\<close>] assms(1) by (simp add: strip_snoc_space)
  also have "\<dots> = map (strip is_space) (butlast (split c s) @ [last (split c s)])" by simp
  also have "\<dots> = map (strip is_space) (split c s)" using ne by simp
  finally show ?thesis .
qed

lemma split_not_space_rstrip:
  "\<not> is_space c \<Longrightarrow>
   map (strip is_space) (split c (rev (dropWhile is_space (rev s))))
     = map (strip is_space) (split c s)"
proof (induction s rule: rev_induct)
  case Nil
  then show ?case by simp
next
  case (snoc x xs)
  then show ?case by (cases "is_space x") (simp_all add: map_strip_split_snoc_space)
qed

lemma map_strip_split_strip:
  "\<not> is_space c \<Longrightarrow>
   map (strip is_space) (split c (strip is_space s)) = map (strip is_space) (split c s)"
  using split_not_space_rstrip [of is_space c "dropWhile is_space s"]
    split_not_space_lstrip [of is_space c s]
  by (simp add: strip_def)

lemma split_join:
  "xs \<noteq> [] \<Longrightarrow> \<forall>t\<in>set xs. c \<notin> set t \<Longrightarrow> split c (join [c] xs) = xs"
proof (induction "[c]" xs rule: join.induct)
  case 1
  then show ?case by simp
next
  case (2 x)
  then show ?case by (induction x) (auto split: list.splits)
next
  case (3 x y ys)
  then have IH: "split c (join [c] (y # ys)) = y # ys" by simp
  from 3 have "c \<notin> set x" by simp
  then have "split c (x @ [c] @ join [c] (y # ys)) = x # split c (join [c] (y # ys))"
    by (induction x) (auto split: list.splits)
  with IH show ?case by simp
qed

lemma name_tokens:
  "\<not> is_space comma \<Longrightarrow>
   get_unique_ingredients_name is_space lower comma s
     = join [comma] (sort (ingredient_tokens is_space lower comma s))"
  by (simp add: get_unique_ingredients_name_def ingredient_tokens_def map_strip_split_strip)

lemma sort_mset_cong: "mset xs = mset ys \<Longrightarrow> sort xs = sort (ys :: 'c::linorder list list)"
  by (metis properties_for_sort sorted_sort mset_sort)

lemma name_empty:
  "strip is_space (lower s) = [] \<Longrightarrow> get_unique_ingredients_name is_space lower comma s = []"
  by (simp add: get_unique_ingredients_name_def) (simp add: strip_def)

lemma tokens_join:
  assumes "lower_tokenwise comma lower" "xs \<noteq> []" "\<forall>t\<in>set xs. comma \<notin> set t"
  shows "ingredient_tokens is_space lower comma (join [comma] xs)
           = map (strip is_space \<circ> lower) xs"
proof -
  from assms(3) have "list_all (\<lambda>t. comma \<notin> set t) xs" by (simp add: list_all_iff)
  with assms(1,2) have "split comma (lower (join [comma] xs)) = map lower xs"
    unfolding lower_tokenwise_def by blast
  then show ?thesis by (simp add: ingredient_tokens_def)
qed

text \<open>The ASCII runtime is one of those that the facts above speak about.\<close>

lemma lower_char_comma: "lower_char x = CHR '','' \<longleftrightarrow> x = CHR '',''"
  by (simp add: lower_char_def)

lemma split_ascii_lower:
  "split CHR '','' (ascii_lower s) = map ascii_lower (split CHR '','' s)"
  by (induction s) (auto simp: ascii_lower_def lower_char_comma split: list.splits)

lemma ascii_lower_tokenwise: "lower_tokenwise CHR '','' ascii_lower"
  unfolding lower_tokenwise_def
proof (intro allI impI)
  fix xs :: "string list"
  assume h: "xs \<noteq> [] \<and> list_all (\<lambda>t. CHR '','' \<notin> set t) xs"
  then have "split CHR '','' (join '','' xs) = xs"
    using split_join [of xs "CHR '',''"] by (simp add: list_all_iff)
  then show "split CHR '','' (ascii_lower (join '','' xs)) = map ascii_lower xs"
    by (simp add: split_ascii_lower)
qed

lemma ascii_lower_lowers_ascii: "lowers_ascii ascii_lower"
  by (simp add: lowers_ascii_def ascii_lower_def)

lemma ascii_space_spaces_ascii: "spaces_ascii ascii_space"
  by (auto simp: spaces_ascii_def ascii_space_def)

lemma comma_not_space: "\<not> ascii_space CHR '',''"
  by (simp add: ascii_space_def)

lemma spaces_ascii_letters:
  assumes "spaces_ascii isp"
  shows "isp CHR '' ''" "\<not> isp CHR ''e''" "\<not> isp CHR ''g''" "\<not> isp CHR ''f''"
    "\<not> isp CHR ''r''" "\<not> isp CHR '',''"
  using assms unfolding spaces_ascii_def by simp_all

subsection \<open>The ingredient key\<close>

text \<open>
  C3. Under every runtime (every whitespace test \<open>is_space\<close> that the comma does not pass,
  every lower-casing \<open>lower\<close>, over bytes or code points) the ingredient key depends only
  on the multiset of the tokens, the trimmed comma-separated pieces of the lower-cased
  string: two raw strings with the same multiset of tokens get the same key. In
  particular, where lower-casing works token by token, the comma-joins of two token lists
  that agree as multisets up to case and surrounding whitespace get the same key. The key
  is the comma-join of the sorted tokens; a string whose lower-casing is empty after
  trimming gives the empty key, so does a string that is empty after trimming and that
  lower-casing leaves as it is; and under every runtime that lower-cases ASCII text and
  tests ASCII whitespace as Python does, \<^verbatim>\<open>"Egg, Flour"\<close> and \<^verbatim>\<open>"flour,egg"\<close> both give
  \<^verbatim>\<open>"egg,flour"\<close>.
\<close>

theorem ingredients_key_of_token_multiset:
  fixes is_space :: "'c::linorder \<Rightarrow> bool" and isp :: "char \<Rightarrow> bool"
  shows
  "(\<not> is_space comma \<longrightarrow>
      (mset (ingredient_tokens is_space lower comma a)
         = mset (ingredient_tokens is_space lower comma b) \<longrightarrow>
       get_unique_ingredients_name is_space lower comma a
         = get_unique_ingredients_name is_space lower comma b)
    \<and> (lower_tokenwise comma lower \<and> xs \<noteq> [] \<and> ys \<noteq> [] \<and>
         (\<forall>t\<in>set xs \<union> set ys. comma \<notin> set t) \<and>
         mset (map (strip is_space \<circ> lower) xs) = mset (map (strip is_space \<circ> lower) ys) \<longrightarrow>
       get_unique_ingredients_name is_space lower comma (join [comma] xs)
         = get_unique_ingredients_name is_space lower comma (join [comma] ys))
    \<and> get_unique_ingredients_name is_space lower comma s
        = join [comma] (sort (ingredient_tokens is_space lower comma s)))
   \<and> (strip is_space (lower r) = [] \<longrightarrow> get_unique_ingredients_name is_space lower comma r = [])
   \<and> (strip is_space r = [] \<and> lower r = r \<longrightarrow>
        get_unique_ingredients_name is_space lower comma r = [])
   \<and> (lowers_ascii low \<and> spaces_ascii isp \<longrightarrow>
        get_unique_ingredients_name isp low CHR '','' ''Egg, Flour'' = ''egg,flour''
        \<and> get_unique_ingredients_name isp low CHR '','' ''flour,egg'' = ''egg,flour'')"
proof -
  have A: "get_unique_ingredients_name is_space lower comma a
             = get_unique_ingredients_name is_space lower comma b"
    if ns: "\<not> is_space comma"
      and "mset (ingredient_tokens is_space lower comma a)
             = mset (ingredient_tokens is_space lower comma b)" for a b
    using sort_mset_cong [OF that(2)] ns by (simp add: name_tokens)
  have B: "get_unique_ingredients_name is_space lower comma (join [comma] xs)
             = get_unique_ingredients_name is_space lower comma (join [comma] ys)"
    if ns: "\<not> is_space comma"
      and h: "lower_tokenwise comma lower \<and> xs \<noteq> [] \<and> ys \<noteq> [] \<and>
         (\<forall>t\<in>set xs \<union> set ys. comma \<notin> set t) \<and>
         mset (map (strip is_space \<circ> lower) xs) = mset (map (strip is_space \<circ> lower) ys)"
  proof -
    from h have "ingredient_tokens is_space lower comma (join [comma] xs)
                   = map (strip is_space \<circ> lower) xs"
      by (intro tokens_join) auto
    moreover from h have "ingredient_tokens is_space lower comma (join [comma] ys)
                   = map (strip is_space \<circ> lower) ys"
      by (intro tokens_join) auto
    ultimately have "mset (ingredient_tokens is_space lower comma (join [comma] xs))
                       = mset (ingredient_tokens is_space lower comma (join [comma] ys))"
      using h by simp
    then show ?thesis by (rule A [OF ns])
  qed
  have C: "get_unique_ingredients_name isp low CHR '','' ''Egg, Flour'' = ''egg,flour''
           \<and> get_unique_ingredients_name isp low CHR '','' ''flour,egg'' = ''egg,flour''"
    if h: "lowers_ascii low \<and> spaces_ascii isp"
  proof -
    from h have l1: "low ''Egg, Flour'' = map lower_char ''Egg, Flour''"
      unfolding lowers_ascii_def by simp
    from h have l2: "low ''flour,egg'' = map lower_char ''flour,egg''"
      unfolding lowers_ascii_def by simp
    from h have sp: "isp CHR '' ''" "\<not> isp CHR ''e''" "\<not> isp CHR ''g''" "\<not> isp CHR ''f''"
      "\<not> isp CHR ''r''"
      by (simp_all add: spaces_ascii_letters)
    have "get_unique_ingredients_name isp low CHR '','' ''Egg, Flour'' = ''egg,flour''"
      by (simp add: get_unique_ingredients_name_def l1 lower_char_def strip_def sp)
    moreover have "get_unique_ingredients_name isp low CHR '','' ''flour,egg'' = ''egg,flour''"
      by (simp add: get_unique_ingredients_name_def l2 lower_char_def strip_def sp)
    ultimately show ?thesis by simp
  qed
  have D: "get_unique_ingredients_name is_space lower comma r = []"
    if "strip is_space r = [] \<and> lower r = r"
    using that name_empty [of is_space lower r comma] by simp
  show ?thesis
    using A B C D name_tokens [of is_space comma lower s] name_empty [of is_space lower r comma]
    by blast
qed

theorem ingredients_key_of_token_multiset_witness:
  "\<not> ascii_space CHR '',''
   \<and> mset (ingredient_tokens ascii_space ascii_lower CHR '','' ''Egg, Flour'')
       = mset (ingredient_tokens ascii_space ascii_lower CHR '','' ''flour,egg'')
   \<and> get_unique_ingredients_name ascii_space ascii_lower CHR '','' ''Egg, Flour''
       = get_unique_ingredients_name ascii_space ascii_lower CHR '','' ''flour,egg''
   \<and> lower_tokenwise CHR '','' ascii_lower
   \<and> [''Olive Oil '', '' egg''] \<noteq> [] \<and> [''EGG'', ''olive oil''] \<noteq> []
   \<and> list_all (\<lambda>t. CHR '','' \<notin> set t) ([''Olive Oil '', '' egg''] @ [''EGG'', ''olive oil''])
   \<and> mset (map (strip ascii_space \<circ> ascii_lower) [''Olive Oil '', '' egg''])
       = mset (map (strip ascii_space \<circ> ascii_lower) [''EGG'', ''olive oil''])
   \<and> get_unique_ingredients_name ascii_space ascii_lower CHR '','' (join '','' [''Olive Oil '', '' egg''])
       = get_unique_ingredients_name ascii_space ascii_lower CHR '','' (join '','' [''EGG'', ''olive oil''])
   \<and> strip ascii_space (ascii_lower '' '') = []
   \<and> strip ascii_space '' '' = [] \<and> ascii_lower '' '' = '' ''
   \<and> get_unique_ingredients_name ascii_space ascii_lower CHR '','' '' '' = []
   \<and> lowers_ascii ascii_lower \<and> spaces_ascii ascii_space
   \<and> get_unique_ingredients_name ascii_space ascii_lower CHR '','' ''Egg, Flour'' = ''egg,flour''
   \<and> get_unique_ingredients_name ascii_space ascii_lower CHR '','' ''flour,egg'' = ''egg,flour''"
proof -
  have h1: "mset (ingredient_tokens ascii_space ascii_lower CHR '','' ''Egg, Flour'')
       = mset (ingredient_tokens ascii_space ascii_lower CHR '','' ''flour,egg'')"
    by (simp add: ingredient_tokens_def strip_def ascii_lower_def lower_char_def ascii_space_def)
  have h2: "mset (map (strip ascii_space \<circ> ascii_lower) [''Olive Oil '', '' egg''])
       = mset (map (strip ascii_space \<circ> ascii_lower) [''EGG'', ''olive oil''])"
    by (simp add: strip_def ascii_lower_def lower_char_def ascii_space_def)
  have h3: "\<forall>t\<in>set [''Olive Oil '', '' egg''] \<union> set [''EGG'', ''olive oil'']. CHR '','' \<notin> set t"
    by simp
  have h4: "strip ascii_space (ascii_lower '' '') = []"
    by (simp add: strip_def ascii_space_def ascii_lower_def lower_char_def)
  have h5: "list_all (\<lambda>t. CHR '','' \<notin> set t) ([''Olive Oil '', '' egg''] @ [''EGG'', ''olive oil''])"
    by simp
  have h6: "[''Olive Oil '', '' egg''] \<noteq> [] \<and> [''EGG'', ''olive oil''] \<noteq> []"
    by simp
  have h7: "strip ascii_space '' '' = [] \<and> ascii_lower '' '' = '' ''"
    by (simp add: strip_def ascii_space_def ascii_lower_def lower_char_def)
  note T = ingredients_key_of_token_multiset [where is_space = ascii_space
      and lower = ascii_lower and comma = "CHR '',''" and a = "''Egg, Flour''"
      and b = "''flour,egg''" and xs = "[''Olive Oil '', '' egg'']"
      and ys = "[''EGG'', ''olive oil'']" and s = "''x''" and r = "'' ''"
      and low = ascii_lower and isp = ascii_space]
  show ?thesis
    using h1 h2 h3 h4 h5 h6 h7 comma_not_space ascii_lower_tokenwise ascii_lower_lowers_ascii
      ascii_space_spaces_ascii T
    by blast
qed

subsection \<open>The recommendation reducer\<close>

lemma first_seen_snoc:
  "first_seen (ks @ [k]) = (if k \<in> set ks then first_seen ks else first_seen ks @ [k])"
  by (simp add: first_seen_def)

lemma set_first_seen: "set (first_seen ks) = set ks"
  by (simp add: first_seen_def)

lemma distinct_first_seen: "distinct (first_seen ks)"
  by (simp add: first_seen_def)

lemma map_of_pairs_None:
  "map_of (map (\<lambda>p. (f p, g p)) ps) k = None \<longleftrightarrow> k \<notin> f ` set ps"
  by (induction ps) auto

lemma first_title_snoc:
  "first_title (ps @ [p]) k =
     (if k \<in> set (map path_recipe_id ps) then first_title ps k
      else if k = path_recipe_id p then path_recipe_title p else None)"
proof (cases "k \<in> path_recipe_id ` set ps")
  case True
  then obtain t where "map_of (map (\<lambda>p. (path_recipe_id p, path_recipe_title p)) ps) k = Some t"
    using map_of_pairs_None [of path_recipe_id path_recipe_title ps k] by auto
  with True show ?thesis by (simp add: first_title_def map_add_def)
next
  case False
  then have "map_of (map (\<lambda>p. (path_recipe_id p, path_recipe_title p)) ps) k = None"
    using map_of_pairs_None [of path_recipe_id path_recipe_title ps k] by simp
  with False show ?thesis by (simp add: first_title_def map_add_def)
qed

lemma entry_for_snoc_other:
  "k \<noteq> path_recipe_id p \<Longrightarrow> k \<in> set (map path_recipe_id ps) \<Longrightarrow>
   entry_for (ps @ [p]) k = entry_for ps k"
  by (simp add: entry_for_def first_title_snoc)

lemma entry_for_snoc_seen:
  "path_recipe_id p \<in> set (map path_recipe_id ps) \<Longrightarrow>
   entry_for (ps @ [p]) (path_recipe_id p) =
     (entry_for ps (path_recipe_id p))\<lparr>recommendedUserCount :=
        recommendedUserCount (entry_for ps (path_recipe_id p)) + 1\<rparr>"
  by (simp add: entry_for_def first_title_snoc)

lemma entry_for_snoc_new:
  "path_recipe_id p \<notin> set (map path_recipe_id ps) \<Longrightarrow>
   entry_for (ps @ [p]) (path_recipe_id p) =
     \<lparr>r_id = path_recipe_id p, r_title = path_recipe_title p, recommendedUserCount = 1\<rparr>"
  by (simp add: entry_for_def first_title_snoc count_list_0_iff [THEN iffD2])

lemma increment_first_map:
  assumes "distinct L" "k \<in> set L" "\<And>j. r_id (f j) = j"
    "f' k = (f k)\<lparr>recommendedUserCount := recommendedUserCount (f k) + 1\<rparr>"
    "\<And>j. j \<in> set L \<Longrightarrow> j \<noteq> k \<Longrightarrow> f' j = f j"
  shows "increment_first k (map f L) = map f' L"
  using assms(1,2,5)
proof (induction L)
  case Nil
  then show ?case by simp
next
  case (Cons a L)
  show ?case
  proof (cases "a = k")
    case True
    with Cons.prems have "k \<notin> set L" by simp
    then have "map f' L = map f L" using Cons.prems(3) by (auto simp: True)
    with True assms(3,4) show ?thesis by simp
  next
    case False
    with Cons assms(3) show ?thesis by simp
  qed
qed

lemma reduce_all:
  "foldl (reduce_path n) [] ps =
     map (entry_for ps) (take (nat n) (first_seen (map path_recipe_id ps)))"
proof (induction ps rule: rev_induct)
  case Nil
  then show ?case by (simp add: first_seen_def)
next
  case (snoc p ps)
  define ks where "ks = map path_recipe_id ps"
  define k where "k = path_recipe_id p"
  define L where "L = take (nat n) (first_seen ks)"
  have IH: "foldl (reduce_path n) [] ps = map (entry_for ps) L"
    using snoc by (simp add: L_def ks_def)
  have Lsub: "set L \<subseteq> set ks"
    using set_take_subset [of "nat n" "first_seen ks"] by (simp add: L_def set_first_seen)
  have Ldist: "distinct L" by (simp add: L_def distinct_first_seen)
  have rid: "r_id (entry_for qs j) = j" for qs j by (simp add: entry_for_def)
  have filt: "filter (\<lambda>x. r_id x = k) (map (entry_for ps) L) = [] \<longleftrightarrow> k \<notin> set L"
    by (auto simp: filter_empty_conv rid)
  have step: "foldl (reduce_path n) [] (ps @ [p]) = reduce_path n (map (entry_for ps) L) p"
    by (simp add: IH)
  have same: "map (entry_for (ps @ [p])) L = map (entry_for ps) L" if "k \<notin> set L"
  proof (rule map_cong [OF refl])
    fix j assume "j \<in> set L"
    with that Lsub have "j \<noteq> path_recipe_id p" "j \<in> set (map path_recipe_id ps)"
      by (auto simp: k_def ks_def)
    then show "entry_for (ps @ [p]) j = entry_for ps j" by (rule entry_for_snoc_other)
  qed
  let ?L' = "take (nat n) (first_seen (map path_recipe_id (ps @ [p])))"
  have L': "?L' = take (nat n) (if k \<in> set ks then first_seen ks else first_seen ks @ [k])"
    by (simp add: first_seen_snoc k_def ks_def)
  show ?case
  proof (cases "k \<in> set L")
    case True
    then have kin: "k \<in> set ks" using Lsub by auto
    have "reduce_path n (map (entry_for ps) L) p = increment_first k (map (entry_for ps) L)"
      using True filt by (simp add: reduce_path_def Let_def k_def path_recipe_id_def)
    also have "\<dots> = map (entry_for (ps @ [p])) L"
    proof (rule increment_first_map [OF Ldist True])
      show "r_id (entry_for ps j) = j" for j by (rule rid)
      show "entry_for (ps @ [p]) k =
        (entry_for ps k)\<lparr>recommendedUserCount := recommendedUserCount (entry_for ps k) + 1\<rparr>"
        using kin entry_for_snoc_seen [of p ps] by (simp add: k_def ks_def)
      show "entry_for (ps @ [p]) j = entry_for ps j" if "j \<in> set L" "j \<noteq> k" for j
        using that Lsub entry_for_snoc_other [of j p ps] by (auto simp: k_def ks_def)
    qed
    finally show ?thesis using kin step L' by (simp add: L_def)
  next
    case False
    show ?thesis
    proof (cases "int (length L) \<ge> n")
      case full: True
      have "reduce_path n (map (entry_for ps) L) p = map (entry_for ps) L"
        using False filt full by (simp add: reduce_path_def Let_def k_def path_recipe_id_def)
      moreover have "?L' = L"
      proof (cases "k \<in> set ks")
        case True
        then show ?thesis using L' by (simp add: L_def)
      next
        case notin: False
        from full have "nat n \<le> length (first_seen ks)" by (simp add: L_def)
        then show ?thesis using L' notin by (simp add: L_def)
      qed
      ultimately show ?thesis using step same [OF False] by simp
    next
      case room: False
      then have len: "length (first_seen ks) < nat n" by (simp add: L_def)
      then have Lall: "L = first_seen ks" by (simp add: L_def)
      with False have notin: "k \<notin> set ks" by (simp add: set_first_seen)
      have "reduce_path n (map (entry_for ps) L) p =
        map (entry_for ps) L @ [\<lparr>r_id = k, r_title = path_recipe_title p, recommendedUserCount = 1\<rparr>]"
        using False filt room
        by (simp add: reduce_path_def Let_def k_def path_recipe_id_def path_recipe_title_def)
      moreover have "?L' = L @ [k]" using L' notin len Lall by simp
      moreover have "entry_for (ps @ [p]) k =
        \<lparr>r_id = k, r_title = path_recipe_title p, recommendedUserCount = 1\<rparr>"
        using notin entry_for_snoc_new [of p ps] by (simp add: k_def ks_def)
      ultimately show ?thesis using step same [OF False] by simp
    qed
  qed
qed


text \<open>
  C1. The reducer works through the response in arrival order. Its result lists the
  first \<open>count\<close> distinct recipe ids in first-seen order, each with the title of its first
  path and the number of all its paths in the response: a path whose recipe is listed
  adds 1 to that entry whether or not the list is full, a path whose recipe is not listed
  is appended with 1 while the list is shorter than \<open>count\<close>, and is dropped for good
  otherwise. Recipes X, Y, X, Z with a limit of 2 give X with 2 and Y with 1.
\<close>

theorem recommended_reducer_streaming_cap:
  "get_recommended_recipes paths limit =
     map (entry_for paths) (take (nat limit) (first_seen (map path_recipe_id paths)))
   \<and> get_recommended_recipes (paths @ [p]) limit =
       reduce_path limit (get_recommended_recipes paths limit) p
   \<and> (path_recipe_id p \<in> set (map r_id recipes) \<longrightarrow>
        reduce_path limit recipes p = increment_first (path_recipe_id p) recipes)
   \<and> (path_recipe_id p \<notin> set (map r_id recipes) \<and> int (length recipes) < limit \<longrightarrow>
        reduce_path limit recipes p =
          recipes @ [\<lparr>r_id = path_recipe_id p, r_title = path_recipe_title p,
                       recommendedUserCount = 1\<rparr>])
   \<and> (path_recipe_id p \<notin> set (map r_id recipes) \<and> int (length recipes) \<ge> limit \<longrightarrow>
        reduce_path limit recipes p = recipes)
   \<and> (path_recipe_id px' = path_recipe_id px \<and>
        distinct [path_recipe_id px, path_recipe_id py, path_recipe_id pz] \<longrightarrow>
        get_recommended_recipes [px, py, px', pz] 2 =
          [\<lparr>r_id = path_recipe_id px, r_title = path_recipe_title px, recommendedUserCount = 2\<rparr>,
           \<lparr>r_id = path_recipe_id py, r_title = path_recipe_title py, recommendedUserCount = 1\<rparr>])"
proof -
  have all: "get_recommended_recipes ps n =
      map (entry_for ps) (take (nat n) (first_seen (map path_recipe_id ps)))" for ps n
    by (cases "ps = []") (simp_all add: get_recommended_recipes_def reduce_all first_seen_def)
  have fold: "get_recommended_recipes ps n = foldl (reduce_path n) [] ps" for ps n
    by (simp add: get_recommended_recipes_def)
  have snoc: "get_recommended_recipes (paths @ [p]) limit =
       reduce_path limit (get_recommended_recipes paths limit) p"
    by (simp add: fold)
  have mem: "filter (\<lambda>x. r_id x = k) recipes = [] \<longleftrightarrow> k \<notin> set (map r_id recipes)" for k
    by (auto simp: filter_empty_conv)
  have s1: "path_recipe_id p \<in> set (map r_id recipes) \<longrightarrow>
        reduce_path limit recipes p = increment_first (path_recipe_id p) recipes"
    using mem [of "path_recipe_id p"]
    by (simp add: reduce_path_def Let_def path_recipe_id_def)
  have s2: "path_recipe_id p \<notin> set (map r_id recipes) \<and> int (length recipes) < limit \<longrightarrow>
        reduce_path limit recipes p =
          recipes @ [\<lparr>r_id = path_recipe_id p, r_title = path_recipe_title p,
                       recommendedUserCount = 1\<rparr>]"
    using mem [of "path_recipe_id p"]
    by (simp add: reduce_path_def Let_def path_recipe_id_def path_recipe_title_def)
  have s3: "path_recipe_id p \<notin> set (map r_id recipes) \<and> int (length recipes) \<ge> limit \<longrightarrow>
        reduce_path limit recipes p = recipes"
    using mem [of "path_recipe_id p"]
    by (simp add: reduce_path_def Let_def path_recipe_id_def)
  have ex: "get_recommended_recipes [px, py, px', pz] 2 =
          [\<lparr>r_id = path_recipe_id px, r_title = path_recipe_title px, recommendedUserCount = 2\<rparr>,
           \<lparr>r_id = path_recipe_id py, r_title = path_recipe_title py, recommendedUserCount = 1\<rparr>]"
    if "path_recipe_id px' = path_recipe_id px \<and>
        distinct [path_recipe_id px, path_recipe_id py, path_recipe_id pz]"
    using that
    by (simp add: fold reduce_path_def Let_def path_recipe_id_def path_recipe_title_def)
  show ?thesis
    using all [of paths limit] snoc s1 s2 s3 ex by blast
qed

theorem recommended_reducer_streaming_cap_witness:
  "get_recommended_recipes
     [example_path (example_recipe 1 ''X'' ''Omelette'') 1,
      example_path (example_recipe 2 ''Y'' ''Pancake'') 2,
      example_path (example_recipe 1 ''X'' ''Omelette'') 3,
      example_path (example_recipe 3 ''Z'' ''Quiche'') 4] 2 =
     [\<lparr>r_id = Some (PStr ''X''), r_title = Some (PStr ''Omelette''), recommendedUserCount = 2\<rparr>,
      \<lparr>r_id = Some (PStr ''Y''), r_title = Some (PStr ''Pancake''), recommendedUserCount = 1\<rparr>]
   \<and> reduce_path 1
        [\<lparr>r_id = Some (PStr ''X''), r_title = Some (PStr ''Omelette''), recommendedUserCount = 1\<rparr>]
        (example_path (example_recipe 1 ''X'' ''Omelette'') 3) =
      [\<lparr>r_id = Some (PStr ''X''), r_title = Some (PStr ''Omelette''), recommendedUserCount = 2\<rparr>]
   \<and> reduce_path 2
        [\<lparr>r_id = Some (PStr ''X''), r_title = Some (PStr ''Omelette''), recommendedUserCount = 1\<rparr>]
        (example_path (example_recipe 2 ''Y'' ''Pancake'') 2) =
      [\<lparr>r_id = Some (PStr ''X''), r_title = Some (PStr ''Omelette''), recommendedUserCount = 1\<rparr>,
       \<lparr>r_id = Some (PStr ''Y''), r_title = Some (PStr ''Pancake''), recommendedUserCount = 1\<rparr>]
   \<and> reduce_path 1
        [\<lparr>r_id = Some (PStr ''X''), r_title = Some (PStr ''Omelette''), recommendedUserCount = 1\<rparr>]
        (example_path (example_recipe 2 ''Y'' ''Pancake'') 2) =
      [\<lparr>r_id = Some (PStr ''X''), r_title = Some (PStr ''Omelette''), recommendedUserCount = 1\<rparr>]"
proof -
  let ?x = "example_path (example_recipe 1 ''X'' ''Omelette'') 1"
  let ?y = "example_path (example_recipe 2 ''Y'' ''Pancake'') 2"
  let ?x' = "example_path (example_recipe 1 ''X'' ''Omelette'') 3"
  let ?z = "example_path (example_recipe 3 ''Z'' ''Quiche'') 4"
  let ?rs = "[\<lparr>r_id = Some (PStr ''X''), r_title = Some (PStr ''Omelette''), recommendedUserCount = 1\<rparr>]"
  have ids: "path_recipe_id ?x = Some (PStr ''X'')" "path_recipe_id ?y = Some (PStr ''Y'')"
    "path_recipe_id ?x' = Some (PStr ''X'')" "path_recipe_id ?z = Some (PStr ''Z'')"
    by (simp_all add: path_recipe_id_def path_object1_def example_path_def example_recipe_def
        get_property_value_def)
  have titles: "path_recipe_title ?x = Some (PStr ''Omelette'')"
    "path_recipe_title ?y = Some (PStr ''Pancake'')"
    by (simp_all add: path_recipe_title_def path_object1_def example_path_def example_recipe_def
        get_property_value_def)
  note T = recommended_reducer_streaming_cap [of "[]" 2 ?y ?rs ?x' ?x ?y ?z]
  note T1 = recommended_reducer_streaming_cap [of "[]" 1 ?x' ?rs ?x' ?x ?y ?z]
  note T2 = recommended_reducer_streaming_cap [of "[]" 1 ?y ?rs ?x' ?x ?y ?z]
  have e: "get_recommended_recipes [?x, ?y, ?x', ?z] 2 =
     [\<lparr>r_id = Some (PStr ''X''), r_title = Some (PStr ''Omelette''), recommendedUserCount = 2\<rparr>,
      \<lparr>r_id = Some (PStr ''Y''), r_title = Some (PStr ''Pancake''), recommendedUserCount = 1\<rparr>]"
    using T [THEN conjunct2, THEN conjunct2, THEN conjunct2, THEN conjunct2, THEN conjunct2, THEN mp]
      ids titles by simp
  have a: "reduce_path 1 ?rs ?x' =
      [\<lparr>r_id = Some (PStr ''X''), r_title = Some (PStr ''Omelette''), recommendedUserCount = 2\<rparr>]"
    using T1 [THEN conjunct2, THEN conjunct2, THEN conjunct1, THEN mp] ids by simp
  have b: "reduce_path 2 ?rs ?y = ?rs @
       [\<lparr>r_id = Some (PStr ''Y''), r_title = Some (PStr ''Pancake''), recommendedUserCount = 1\<rparr>]"
    using T [THEN conjunct2, THEN conjunct2, THEN conjunct2, THEN conjunct1, THEN mp] ids titles
    by simp
  have c: "reduce_path 1 ?rs ?y = ?rs"
    using T2 [THEN conjunct2, THEN conjunct2, THEN conjunct2, THEN conjunct2, THEN conjunct1, THEN mp]
      ids by simp
  show ?thesis using e a b c by simp
qed

subsection \<open>Facts about the graph service\<close>

lemma edge_paths_between:
  "edge_paths g a b =
     [(v, e, w). v \<leftarrow> filter (\<lambda>v. v_id v = Some a) (vertices g),
                 e \<leftarrow> edges_between g a b,
                 w \<leftarrow> filter (\<lambda>w. v_id w = Some b) (vertices g)]"
proof -
  have inner: "concat (map (\<lambda>w. if v_id w = Some (in_v e) then if v_id w = Some b then [(v, e, w)] else [] else []) ws)
      = (if in_v e = b then concat (map (\<lambda>w. [(v, e, w)]) (filter (\<lambda>w. v_id w = Some b) ws)) else [])"
    for v :: vertex and e :: edge and ws :: "vertex list"
    by (induction ws) auto
  have mid: "concat (map (\<lambda>e. if out_v e = a then concat (map (\<lambda>w. if v_id w = Some (in_v e) then if v_id w = Some b then [(v, e, w)] else [] else []) ws) else []) es)
      = concat (map (\<lambda>e. concat (map (\<lambda>w. [(v, e, w)]) (filter (\<lambda>w. v_id w = Some b) ws)))
          (filter (\<lambda>e. out_v e = a \<and> in_v e = b) es))"
    for v :: vertex and es :: "edge list" and ws :: "vertex list"
    by (induction es) (auto simp: inner)
  have outer: "concat (map (\<lambda>v. if v_id v = Some a then F v else []) vs)
      = concat (map F (filter (\<lambda>v. v_id v = Some a) vs))" for F :: "vertex \<Rightarrow> edge_path list" and vs
    by (induction vs) auto
  show ?thesis
    by (simp add: edge_paths_def edges_between_def mid outer)
qed

lemma has_vertex_filter:
  "has_vertex g a \<Longrightarrow> \<exists>v vs. filter (\<lambda>v. v_id v = Some a) (vertices g) = v # vs"
proof -
  assume "has_vertex g a"
  then have "filter (\<lambda>v. v_id v = Some a) (vertices g) \<noteq> []"
    by (auto simp: has_vertex_def filter_empty_conv)
  then show ?thesis by (cases "filter (\<lambda>v. v_id v = Some a) (vertices g)") auto
qed

lemma edge_paths_none:
  "edges_between g a b = [] \<Longrightarrow> edge_paths g a b = []"
  by (simp add: edge_paths_between)

lemma edge_paths_first:
  assumes "has_vertex g a" "has_vertex g b" "edges_between g a b = x # xs"
  shows "\<exists>v w rest. edge_paths g a b = (v, x, w) # rest"
proof -
  obtain v vs where v: "filter (\<lambda>v. v_id v = Some a) (vertices g) = v # vs"
    using has_vertex_filter [OF assms(1)] by blast
  obtain w ws where w: "filter (\<lambda>w. v_id w = Some b) (vertices g) = w # ws"
    using has_vertex_filter [OF assms(2)] by blast
  show ?thesis
    by (simp add: edge_paths_between v w assms(3))
qed

lemma edges_between_add_edge:
  "edges_between (add_edge g edge) a b =
     edges_between g a b @
       (if out_v edge = a \<and> in_v edge = b then [edge\<lparr>e_id := Some (next_id g)\<rparr>] else [])"
  by (simp add: edges_between_def add_edge_def)

lemma edges_between_update_edge:
  "edges_between (update_edge g edge) a b =
     map (\<lambda>x. if e_id x = e_id edge then x\<lparr>e_props := e_props edge\<rparr> else x) (edges_between g a b)"
  by (simp add: edges_between_def update_edge_def filter_map o_def cong: if_cong)

lemma vertices_add_edge: "vertices (add_edge g edge) = vertices g"
  by (simp add: add_edge_def)

lemma vertices_update_edge: "vertices (update_edge g edge) = vertices g"
  by (simp add: update_edge_def)

lemma has_vertex_add_edge [simp]: "has_vertex (add_edge g edge) a = has_vertex g a"
  by (simp add: has_vertex_def add_edge_def)

lemma has_vertex_update_edge [simp]: "has_vertex (update_edge g edge) a = has_vertex g a"
  by (simp add: has_vertex_def update_edge_def)

lemma add_update_edge_absent:
  "edges_between g (out_v edge) (in_v edge) = [] \<Longrightarrow> add_update_edge g edge = Inr (add_edge g edge)"
  by (simp add: add_update_edge_def edge_paths_none)

lemma add_update_edge_present:
  assumes "has_vertex g (out_v edge)" "has_vertex g (in_v edge)"
    "edges_between g (out_v edge) (in_v edge) = x # xs"
  shows "add_update_edge g edge =
    (case get_property_value (e_props x) ''count'' of
       None \<Rightarrow> Inr (update_edge g (x\<lparr>e_props := set_property_value (e_props x) ''count'' (PInt 1)\<rparr>))
     | Some (PInt c) \<Rightarrow>
         Inr (update_edge g (x\<lparr>e_props := set_property_value (e_props x) ''count'' (PInt (c + 1))\<rparr>))
     | Some (PStr s) \<Rightarrow> Inl TypeError)"
proof -
  obtain v w rest where "edge_paths g (out_v edge) (in_v edge) = (v, x, w) # rest"
    using edge_paths_first [OF assms] by blast
  then show ?thesis
    by (simp add: add_update_edge_def edge_path_object1_def Let_def split: option.splits pval.splits)
qed

lemma add_edge_if_not_exists_absent:
  "edges_between g (out_v edge) (in_v edge) = [] \<Longrightarrow> add_edge_if_not_exists g edge = add_edge g edge"
  by (simp add: add_edge_if_not_exists_def edge_paths_none)

lemma add_edge_if_not_exists_present:
  assumes "has_vertex g (out_v edge)" "has_vertex g (in_v edge)"
    "edges_between g (out_v edge) (in_v edge) = x # xs"
  shows "add_edge_if_not_exists g edge = g"
proof -
  obtain v w rest where "edge_paths g (out_v edge) (in_v edge) = (v, x, w) # rest"
    using edge_paths_first [OF assms] by blast
  then show ?thesis
    by (simp add: add_edge_if_not_exists_def)
qed

lemma get_set_property_value [simp]:
  "get_property_value (set_property_value ps k v) k = Some v"
  by (simp add: get_property_value_def set_property_value_def update_conv')


subsection \<open>The relationship ledger\<close>

lemma add_update_edge_times_counts:
  assumes "has_vertex g (out_v edge)" "has_vertex g (in_v edge)"
    "edges_between g (out_v edge) (in_v edge) = [x]"
    "get_property_value (e_props x) ''count'' = Some (PInt c)"
  shows "\<exists>g' y. add_update_edge_times n g edge = Inr g' \<and>
           edges_between g' (out_v edge) (in_v edge) = [y] \<and>
           get_property_value (e_props y) ''count'' = Some (PInt (c + int n)) \<and>
           e_label y = e_label x \<and> e_id y = e_id x \<and> vertices g' = vertices g"
  using assms
proof (induction n arbitrary: g x c)
  case 0
  then show ?case by simp
next
  case (Suc n)
  let ?x' = "x\<lparr>e_props := set_property_value (e_props x) ''count'' (PInt (c + 1))\<rparr>"
  let ?g' = "update_edge g ?x'"
  have step: "add_update_edge g edge = Inr ?g'"
    using add_update_edge_present [OF Suc.prems(1,2,3)] Suc.prems(4) by simp
  have between: "edges_between ?g' (out_v edge) (in_v edge) = [?x']"
    using Suc.prems(3) by (simp add: edges_between_update_edge)
  have "\<exists>g'' y. add_update_edge_times n ?g' edge = Inr g'' \<and>
           edges_between g'' (out_v edge) (in_v edge) = [y] \<and>
           get_property_value (e_props y) ''count'' = Some (PInt (c + 1 + int n)) \<and>
           e_label y = e_label ?x' \<and> e_id y = e_id ?x' \<and> vertices g'' = vertices ?g'"
    using Suc.prems(1,2) by (intro Suc.IH [OF _ _ between]) simp_all
  then obtain g'' y where r: "add_update_edge_times n ?g' edge = Inr g''"
      "edges_between g'' (out_v edge) (in_v edge) = [y]"
      "get_property_value (e_props y) ''count'' = Some (PInt (c + 1 + int n))"
      "e_label y = e_label ?x'" "e_id y = e_id ?x'" "vertices g'' = vertices ?g'"
    by blast
  have "add_update_edge_times (Suc n) g edge = Inr g''"
    using step r(1) by simp
  moreover have "c + 1 + int n = c + int (Suc n)" by simp
  ultimately show ?case
    using r by (intro exI [of _ g''] exI [of _ y]) (simp add: vertices_update_edge)
qed

text \<open>
  C2. From a graph that stores both end vertices and no edge between them, \<open>n\<close> calls
  of \<^verbatim>\<open>add_update_edge\<close> with an edge of count 1 succeed and leave exactly one edge
  between the two vertices, whose count is \<open>n\<close>: the first call stores the edge as it
  is passed, with count 1, and a call that finds an edge writes back its stored count
  plus 1, a missing count being read as 0.
\<close>

theorem add_update_edge_n_calls:
  "(has_vertex g (out_v edge) \<and> has_vertex g (in_v edge) \<and>
    edges_between g (out_v edge) (in_v edge) = [] \<and>
    get_property_value (e_props edge) ''count'' = Some (PInt 1) \<and> 0 < n \<longrightarrow>
      (\<exists>g' y. add_update_edge_times n g edge = Inr g' \<and>
         edges_between g' (out_v edge) (in_v edge) = [y] \<and>
         get_property_value (e_props y) ''count'' = Some (PInt (int n)) \<and>
         e_label y = e_label edge \<and> vertices g' = vertices g))
   \<and> (edges_between g (out_v edge) (in_v edge) = [] \<longrightarrow>
        add_update_edge g edge = Inr (add_edge g edge) \<and>
        edges_between (add_edge g edge) (out_v edge) (in_v edge) = [edge\<lparr>e_id := Some (next_id g)\<rparr>])
   \<and> (has_vertex g (out_v edge) \<and> has_vertex g (in_v edge) \<and>
       edges_between g (out_v edge) (in_v edge) = x # xs \<and>
       get_property_value (e_props x) ''count'' = None \<longrightarrow>
        add_update_edge g edge =
          Inr (update_edge g (x\<lparr>e_props := set_property_value (e_props x) ''count'' (PInt 1)\<rparr>)))
   \<and> (has_vertex g (out_v edge) \<and> has_vertex g (in_v edge) \<and>
       edges_between g (out_v edge) (in_v edge) = x # xs \<and>
       get_property_value (e_props x) ''count'' = Some (PInt c) \<longrightarrow>
        add_update_edge g edge =
          Inr (update_edge g (x\<lparr>e_props := set_property_value (e_props x) ''count'' (PInt (c + 1))\<rparr>)))"
proof -
  have first: "add_update_edge g edge = Inr (add_edge g edge) \<and>
        edges_between (add_edge g edge) (out_v edge) (in_v edge) = [edge\<lparr>e_id := Some (next_id g)\<rparr>]"
    if "edges_between g (out_v edge) (in_v edge) = []"
    using that by (simp add: add_update_edge_absent edges_between_add_edge)
  have many: "\<exists>g' y. add_update_edge_times n g edge = Inr g' \<and>
         edges_between g' (out_v edge) (in_v edge) = [y] \<and>
         get_property_value (e_props y) ''count'' = Some (PInt (int n)) \<and>
         e_label y = e_label edge \<and> vertices g' = vertices g"
    if h: "has_vertex g (out_v edge) \<and> has_vertex g (in_v edge) \<and>
      edges_between g (out_v edge) (in_v edge) = [] \<and>
      get_property_value (e_props edge) ''count'' = Some (PInt 1) \<and> 0 < n"
  proof -
    from h obtain m where n: "n = Suc m" by (cases n) auto
    let ?g1 = "add_edge g edge"
    let ?x = "edge\<lparr>e_id := Some (next_id g)\<rparr>"
    from h first have one: "add_update_edge g edge = Inr ?g1"
      and between: "edges_between ?g1 (out_v edge) (in_v edge) = [?x]" by simp_all
    have cnt: "get_property_value (e_props ?x) ''count'' = Some (PInt 1)" using h by simp
    have "\<exists>g' y. add_update_edge_times m ?g1 edge = Inr g' \<and>
           edges_between g' (out_v edge) (in_v edge) = [y] \<and>
           get_property_value (e_props y) ''count'' = Some (PInt (1 + int m)) \<and>
           e_label y = e_label ?x \<and> e_id y = e_id ?x \<and> vertices g' = vertices ?g1"
      using h by (intro add_update_edge_times_counts [OF _ _ between cnt]) simp_all
    then obtain g' y where r: "add_update_edge_times m ?g1 edge = Inr g'"
        "edges_between g' (out_v edge) (in_v edge) = [y]"
        "get_property_value (e_props y) ''count'' = Some (PInt (1 + int m))"
        "e_label y = e_label ?x" "vertices g' = vertices ?g1"
      by blast
    have "add_update_edge_times n g edge = Inr g'"
      using one n r(1) by simp
    moreover have "1 + int m = int n" using n by simp
    ultimately show ?thesis
      using r by (intro exI [of _ g'] exI [of _ y]) (simp add: vertices_add_edge)
  qed
  have none: "add_update_edge g edge =
          Inr (update_edge g (x\<lparr>e_props := set_property_value (e_props x) ''count'' (PInt 1)\<rparr>))"
    if "has_vertex g (out_v edge) \<and> has_vertex g (in_v edge) \<and>
       edges_between g (out_v edge) (in_v edge) = x # xs \<and>
       get_property_value (e_props x) ''count'' = None"
    using that add_update_edge_present [of g edge x xs] by simp
  have some: "add_update_edge g edge =
          Inr (update_edge g (x\<lparr>e_props := set_property_value (e_props x) ''count'' (PInt (c + 1))\<rparr>))"
    if "has_vertex g (out_v edge) \<and> has_vertex g (in_v edge) \<and>
       edges_between g (out_v edge) (in_v edge) = x # xs \<and>
       get_property_value (e_props x) ''count'' = Some (PInt c)"
    using that add_update_edge_present [of g edge x xs] by simp
  show ?thesis
    using first many none some by blast
qed


theorem add_update_edge_n_calls_witness:
  "\<exists>g' y. add_update_edge_times 3 example_graph (selects_edge 0 1) = Inr g' \<and>
     edges_between g' 0 1 = [y] \<and>
     get_property_value (e_props y) ''count'' = Some (PInt 3) \<and>
     e_label y = ''selects'' \<and> vertices g' = vertices example_graph"
proof -
  have h: "has_vertex example_graph (out_v (selects_edge 0 1)) \<and>
    has_vertex example_graph (in_v (selects_edge 0 1)) \<and>
    edges_between example_graph (out_v (selects_edge 0 1)) (in_v (selects_edge 0 1)) = [] \<and>
    get_property_value (e_props (selects_edge 0 1)) ''count'' = Some (PInt 1) \<and> 0 < (3::nat)"
    by (simp add: has_vertex_def example_graph_def selects_edge_def edges_between_def
        get_property_value_def)
  show ?thesis
    using add_update_edge_n_calls [of example_graph "selects_edge 0 1" 3, THEN conjunct1, THEN mp, OF h]
    by (simp add: selects_edge_def)
qed

text \<open>
  C5. From a graph that stores both end vertices and no edge between them, any positive
  number of calls of \<^verbatim>\<open>add_edge_if_not_exists\<close> leaves the graph that the first call
  leaves: exactly one edge between the two vertices, the edge passed in under a fresh
  identifier, with its label and its properties (none for a \<^verbatim>\<open>has\<close> edge), and a
  further call changes nothing.
\<close>

theorem add_edge_if_not_exists_n_calls:
  "(has_vertex g (out_v edge) \<and> has_vertex g (in_v edge) \<and>
    edges_between g (out_v edge) (in_v edge) = [] \<and> 0 < n \<longrightarrow>
      add_edge_if_not_exists_times n g edge = add_edge g edge \<and>
      edges_between (add_edge_if_not_exists_times n g edge) (out_v edge) (in_v edge) =
        [edge\<lparr>e_id := Some (next_id g)\<rparr>] \<and>
      add_edge_if_not_exists (add_edge_if_not_exists_times n g edge) edge =
        add_edge_if_not_exists_times n g edge)
   \<and> (has_vertex g a \<and> has_vertex g b \<and> edges_between g a b = [] \<and> 0 < n \<longrightarrow>
        (\<exists>y. edges_between (add_edge_if_not_exists_times n g (has_edge a b)) a b = [y] \<and>
           e_label y = ''has'' \<and> e_props y = [] \<and>
           get_property_value (e_props y) ''count'' = None))"
proof -
  have stay: "add_edge_if_not_exists_times m (add_edge g e) e = add_edge g e"
    if "has_vertex g (out_v e)" "has_vertex g (in_v e)" for m e
  proof (induction m)
    case 0
    then show ?case by simp
  next
    case (Suc m)
    have "edges_between (add_edge g e) (out_v e) (in_v e) =
        edges_between g (out_v e) (in_v e) @ [e\<lparr>e_id := Some (next_id g)\<rparr>]"
      by (simp add: edges_between_add_edge)
    then obtain x xs where "edges_between (add_edge g e) (out_v e) (in_v e) = x # xs"
      by (cases "edges_between g (out_v e) (in_v e)") auto
    then have "add_edge_if_not_exists (add_edge g e) e = add_edge g e"
      using that by (intro add_edge_if_not_exists_present) simp_all
    with Suc show ?case by simp
  qed
  have main: "add_edge_if_not_exists_times n g e = add_edge g e \<and>
      edges_between (add_edge_if_not_exists_times n g e) (out_v e) (in_v e) =
        [e\<lparr>e_id := Some (next_id g)\<rparr>] \<and>
      add_edge_if_not_exists (add_edge_if_not_exists_times n g e) e =
        add_edge_if_not_exists_times n g e"
    if h: "has_vertex g (out_v e) \<and> has_vertex g (in_v e) \<and>
      edges_between g (out_v e) (in_v e) = [] \<and> 0 < n" for e
  proof -
    from h obtain m where n: "n = Suc m" by (cases n) auto
    from h have one: "add_edge_if_not_exists g e = add_edge g e"
      by (simp add: add_edge_if_not_exists_absent)
    have eq: "add_edge_if_not_exists_times n g e = add_edge g e"
      using h n one stay [of e m] by simp
    have again: "add_edge_if_not_exists (add_edge g e) e = add_edge g e"
      using h stay [of e "Suc 0"] by simp
    show ?thesis
      using h eq again by (simp add: edges_between_add_edge)
  qed
  have spec: "\<exists>y. edges_between (add_edge_if_not_exists_times n g (has_edge a b)) a b = [y] \<and>
           e_label y = ''has'' \<and> e_props y = [] \<and>
           get_property_value (e_props y) ''count'' = None"
    if "has_vertex g a \<and> has_vertex g b \<and> edges_between g a b = [] \<and> 0 < n"
  proof -
    have "out_v (has_edge a b) = a" "in_v (has_edge a b) = b"
      by (simp_all add: has_edge_def)
    then have "edges_between (add_edge_if_not_exists_times n g (has_edge a b)) a b =
        [(has_edge a b)\<lparr>e_id := Some (next_id g)\<rparr>]"
      using that main [of "has_edge a b", THEN conjunct2, THEN conjunct1] by simp
    then show ?thesis
      by (simp add: has_edge_def get_property_value_def)
  qed
  show ?thesis
    using main [of edge] spec by blast
qed

theorem add_edge_if_not_exists_n_calls_witness:
  "add_edge_if_not_exists_times 3 example_graph (has_edge 1 2) =
     add_edge example_graph (has_edge 1 2)
   \<and> edges_between (add_edge_if_not_exists_times 3 example_graph (has_edge 1 2)) 1 2 =
       [\<lparr>e_id = Some 3, e_label = ''has'', out_v = 1, in_v = 2, e_props = []\<rparr>]
   \<and> add_edge_if_not_exists (add_edge_if_not_exists_times 3 example_graph (has_edge 1 2))
        (has_edge 1 2) =
       add_edge_if_not_exists_times 3 example_graph (has_edge 1 2)"
proof -
  have h: "has_vertex example_graph (out_v (has_edge 1 2)) \<and>
    has_vertex example_graph (in_v (has_edge 1 2)) \<and>
    edges_between example_graph (out_v (has_edge 1 2)) (in_v (has_edge 1 2)) = [] \<and> 0 < (3::nat)"
    by (simp add: has_vertex_def example_graph_def has_edge_def edges_between_def)
  have n: "next_id example_graph = 3" by (simp add: example_graph_def)
  have io: "out_v (has_edge 1 2) = 1" "in_v (has_edge 1 2) = 2"
    "(has_edge 1 2)\<lparr>e_id := Some 3\<rparr> =
       \<lparr>e_id = Some 3, e_label = ''has'', out_v = 1, in_v = 2, e_props = []\<rparr>"
    by (simp_all add: has_edge_def)
  note T = add_edge_if_not_exists_n_calls [of example_graph "has_edge 1 2" 3 1 2,
        THEN conjunct1, THEN mp, OF h]
  show ?thesis
    using T [THEN conjunct1] T [THEN conjunct2, THEN conjunct1] T [THEN conjunct2, THEN conjunct2]
    by (simp only: io n)
qed

text \<open>
  C10. The existence check of both operations looks at the end vertices only. When some
  edge, of whatever label, already runs between the end vertices of the edge passed in,
  \<^verbatim>\<open>add_edge_if_not_exists\<close> leaves the graph as it is and \<^verbatim>\<open>add_update_edge\<close> adds 1
  to the count of the first such edge (a missing count read as 0); the label of the
  edge passed in plays no part. So both operations, asked for an edge between stored
  vertices, keep a graph at one edge per ordered pair.
\<close>

theorem edge_check_ignores_label:
  "(has_vertex g (out_v edge) \<and> has_vertex g (in_v edge) \<and>
    edges_between g (out_v edge) (in_v edge) = x # xs \<longrightarrow>
      add_edge_if_not_exists g edge = g \<and>
      add_edge_if_not_exists g (edge\<lparr>e_label := l\<rparr>) = g \<and>
      add_update_edge g (edge\<lparr>e_label := l\<rparr>) = add_update_edge g edge \<and>
      (get_property_value (e_props x) ''count'' = None \<longrightarrow>
         add_update_edge g edge =
           Inr (update_edge g (x\<lparr>e_props := set_property_value (e_props x) ''count'' (PInt 1)\<rparr>))) \<and>
      (get_property_value (e_props x) ''count'' = Some (PInt c) \<longrightarrow>
         add_update_edge g edge =
           Inr (update_edge g (x\<lparr>e_props := set_property_value (e_props x) ''count'' (PInt (c + 1))\<rparr>))))
   \<and> one_edge_per_pair empty_graph
   \<and> (one_edge_per_pair g \<and> has_vertex g (out_v edge) \<and> has_vertex g (in_v edge) \<longrightarrow>
        one_edge_per_pair (add_edge_if_not_exists g edge) \<and>
        (\<forall>g'. add_update_edge g edge = Inr g' \<longrightarrow> one_edge_per_pair g'))
   \<and> (one_edge_per_pair g \<longrightarrow> one_edge_per_pair (snd (add_vertex_if_not_exists g vertex k)))"
proof -
  have pres: "add_edge_if_not_exists g e = g \<and>
      (get_property_value (e_props x) ''count'' = None \<longrightarrow>
         add_update_edge g e =
           Inr (update_edge g (x\<lparr>e_props := set_property_value (e_props x) ''count'' (PInt 1)\<rparr>))) \<and>
      (get_property_value (e_props x) ''count'' = Some (PInt c) \<longrightarrow>
         add_update_edge g e =
           Inr (update_edge g (x\<lparr>e_props := set_property_value (e_props x) ''count'' (PInt (c + 1))\<rparr>)))"
    if "has_vertex g (out_v e) \<and> has_vertex g (in_v e) \<and>
      edges_between g (out_v e) (in_v e) = x # xs" for e
    using that add_edge_if_not_exists_present [of g e x xs] add_update_edge_present [of g e x xs]
    by simp
  have lab: "add_update_edge g (edge\<lparr>e_label := l\<rparr>) = add_update_edge g edge"
    if "has_vertex g (out_v edge) \<and> has_vertex g (in_v edge) \<and>
      edges_between g (out_v edge) (in_v edge) = x # xs"
    using that add_update_edge_present [of g edge x xs]
      add_update_edge_present [of g "edge\<lparr>e_label := l\<rparr>" x xs]
    by simp
  have part1: "add_edge_if_not_exists g edge = g \<and>
      add_edge_if_not_exists g (edge\<lparr>e_label := l\<rparr>) = g \<and>
      add_update_edge g (edge\<lparr>e_label := l\<rparr>) = add_update_edge g edge \<and>
      (get_property_value (e_props x) ''count'' = None \<longrightarrow>
         add_update_edge g edge =
           Inr (update_edge g (x\<lparr>e_props := set_property_value (e_props x) ''count'' (PInt 1)\<rparr>))) \<and>
      (get_property_value (e_props x) ''count'' = Some (PInt c) \<longrightarrow>
         add_update_edge g edge =
           Inr (update_edge g (x\<lparr>e_props := set_property_value (e_props x) ''count'' (PInt (c + 1))\<rparr>)))"
    if h: "has_vertex g (out_v edge) \<and> has_vertex g (in_v edge) \<and>
      edges_between g (out_v edge) (in_v edge) = x # xs"
    using pres [of edge, OF h] pres [of "edge\<lparr>e_label := l\<rparr>"] h lab [OF h] by simp
  have empty: "one_edge_per_pair empty_graph"
    by (simp add: one_edge_per_pair_def empty_graph_def)
  have upd: "one_edge_per_pair (update_edge g e) = one_edge_per_pair g" for e
    by (simp add: one_edge_per_pair_def update_edge_def o_def if_distrib cong: if_cong)
  have add: "one_edge_per_pair (add_edge g e)"
    if "one_edge_per_pair g" "edges_between g (out_v e) (in_v e) = []" for e
    using that
    by (auto simp: one_edge_per_pair_def add_edge_def edges_between_def filter_empty_conv)
  have part3: "one_edge_per_pair (add_edge_if_not_exists g edge) \<and>
        (\<forall>g'. add_update_edge g edge = Inr g' \<longrightarrow> one_edge_per_pair g')"
    if h: "one_edge_per_pair g \<and> has_vertex g (out_v edge) \<and> has_vertex g (in_v edge)"
  proof (cases "edges_between g (out_v edge) (in_v edge)")
    case Nil
    with h show ?thesis
      by (auto simp: add_edge_if_not_exists_absent add_update_edge_absent add)
  next
    case (Cons y ys)
    with h have "add_edge_if_not_exists g edge = g"
      by (intro add_edge_if_not_exists_present) simp_all
    moreover have "one_edge_per_pair g'" if "add_update_edge g edge = Inr g'" for g'
      using that h Cons add_update_edge_present [of g edge y ys]
      by (auto simp: upd split: option.splits pval.splits)
    ultimately show ?thesis using h by simp
  qed
  have part4: "one_edge_per_pair (snd (add_vertex_if_not_exists g vertex k))"
    if "one_edge_per_pair g"
    using that
    by (simp add: add_vertex_if_not_exists_def add_vertex_def Let_def one_edge_per_pair_def
        split: list.splits)
  show ?thesis
    using part1 empty part3 part4 by blast
qed

text \<open>
  An example with the labels crossed: the stored edge from 1 to 2 is labelled \<^verbatim>\<open>has\<close>
  and has no count; asked for a \<^verbatim>\<open>selects\<close> edge from 1 to 2, \<^verbatim>\<open>add_update_edge\<close>
  gives the \<^verbatim>\<open>has\<close> edge the count 1.
\<close>

theorem edge_check_ignores_label_witness:
  "add_edge_if_not_exists (add_edge example_graph (selects_edge 1 2)) (has_edge 1 2) =
     add_edge example_graph (selects_edge 1 2)
   \<and> add_update_edge (add_edge example_graph (has_edge 1 2)) (selects_edge 1 2) =
       Inr (example_graph\<lparr>edges :=
             [\<lparr>e_id = Some 3, e_label = ''has'', out_v = 1, in_v = 2,
               e_props = [(''count'', PInt 1)]\<rparr>], next_id := 4\<rparr>)
   \<and> one_edge_per_pair (add_edge_if_not_exists example_graph (has_edge 1 2))"
proof -
  let ?g1 = "add_edge example_graph (selects_edge 1 2)"
  let ?g2 = "add_edge example_graph (has_edge 1 2)"
  have h1: "has_vertex ?g1 (out_v (has_edge 1 2)) \<and> has_vertex ?g1 (in_v (has_edge 1 2)) \<and>
    edges_between ?g1 (out_v (has_edge 1 2)) (in_v (has_edge 1 2)) =
      (selects_edge 1 2)\<lparr>e_id := Some 3\<rparr> # []"
    by (simp add: has_vertex_def example_graph_def has_edge_def selects_edge_def
        edges_between_def add_edge_def)
  have h2: "has_vertex ?g2 (out_v (selects_edge 1 2)) \<and> has_vertex ?g2 (in_v (selects_edge 1 2)) \<and>
    edges_between ?g2 (out_v (selects_edge 1 2)) (in_v (selects_edge 1 2)) =
      (has_edge 1 2)\<lparr>e_id := Some 3\<rparr> # []"
    by (simp add: has_vertex_def example_graph_def has_edge_def selects_edge_def
        edges_between_def add_edge_def)
  have c: "get_property_value (e_props ((has_edge 1 2)\<lparr>e_id := Some 3\<rparr>)) ''count'' = None"
    by (simp add: has_edge_def get_property_value_def)
  have h3: "one_edge_per_pair example_graph \<and> has_vertex example_graph (out_v (has_edge 1 2)) \<and>
    has_vertex example_graph (in_v (has_edge 1 2))"
    by (simp add: one_edge_per_pair_def has_vertex_def example_graph_def has_edge_def)
  have a: "add_edge_if_not_exists ?g1 (has_edge 1 2) = ?g1"
    using edge_check_ignores_label [of ?g1 "has_edge 1 2" _ "[]" "''has''" 0 vertex k,
        THEN conjunct1, THEN mp, OF h1] by simp
  have b: "add_update_edge ?g2 (selects_edge 1 2) =
      Inr (update_edge ?g2 (((has_edge 1 2)\<lparr>e_id := Some 3\<rparr>)\<lparr>e_props :=
        set_property_value (e_props ((has_edge 1 2)\<lparr>e_id := Some 3\<rparr>)) ''count'' (PInt 1)\<rparr>))"
    using edge_check_ignores_label [of ?g2 "selects_edge 1 2" _ "[]" "''has''" 0 vertex k,
        THEN conjunct1, THEN mp, OF h2] c by simp
  have d: "one_edge_per_pair (add_edge_if_not_exists example_graph (has_edge 1 2))"
    using edge_check_ignores_label [of example_graph "has_edge 1 2" x xs l c vertex k,
        THEN conjunct2, THEN conjunct2, THEN conjunct1, THEN mp, OF h3] by simp
  show ?thesis
    using a b d
    by (simp add: update_edge_def add_edge_def example_graph_def has_edge_def
        set_property_value_def)
qed

subsection \<open>The entity repository\<close>

lemma vertices_by_property_add_vertex:
  "vertices_by_property (snd (add_vertex g vertex)) label k s =
     vertices_by_property g label k s @
       (if v_label vertex = label \<and> get_property_value (v_props vertex) k = Some (PStr s)
        then [fst (add_vertex g vertex)] else [])"
  by (simp add: vertices_by_property_def add_vertex_def Let_def)

lemma add_vertex_if_not_exists_str:
  "get_property_value (v_props vertex) k = Some (PStr s) \<Longrightarrow>
   add_vertex_if_not_exists g vertex k =
     (case vertices_by_property g (v_label vertex) k s of
        r # _ \<Rightarrow> (r, g) | [] \<Rightarrow> add_vertex g vertex)"
  by (simp add: add_vertex_if_not_exists_def format_value_def)

lemma add_vertex_if_not_exists_second_call:
  "(get_property_value (v_props vertex) k = Some (PStr s) \<and>
    get_property_value (v_props vertex') k = Some (PStr s) \<and>
    v_label vertex' = v_label vertex \<and>
    add_vertex_if_not_exists g vertex k = (r, g1) \<longrightarrow>
      add_vertex_if_not_exists g1 vertex' k = (r, g1) \<and> r \<in> set (vertices g1) \<and>
      v_label r = v_label vertex \<and> get_property_value (v_props r) k = Some (PStr s))
   \<and> (get_property_value (v_props vertex) k = Some (PStr s) \<and>
       vertices_by_property g (v_label vertex) k s = [] \<and>
       add_vertex_if_not_exists g vertex k = (r, g1) \<longrightarrow>
         r = vertex\<lparr>v_id := Some (next_id g)\<rparr> \<and> vertices g1 = vertices g @ [r] \<and>
         edges g1 = edges g)"
proof -
  have A: "add_vertex_if_not_exists g1 vertex' k = (r, g1) \<and> r \<in> set (vertices g1) \<and>
      v_label r = v_label vertex \<and> get_property_value (v_props r) k = Some (PStr s)"
    if h: "get_property_value (v_props vertex) k = Some (PStr s) \<and>
      get_property_value (v_props vertex') k = Some (PStr s) \<and>
      v_label vertex' = v_label vertex \<and>
      add_vertex_if_not_exists g vertex k = (r, g1)"
  proof -
    from h have k1: "get_property_value (v_props vertex) k = Some (PStr s)"
      and k2: "get_property_value (v_props vertex') k = Some (PStr s)"
      and lab: "v_label vertex' = v_label vertex"
      and call: "add_vertex_if_not_exists g vertex k = (r, g1)" by simp_all
    note first = add_vertex_if_not_exists_str [OF k1, of g]
    note second = add_vertex_if_not_exists_str [OF k2, of g1]
    show ?thesis
    proof (cases "vertices_by_property g (v_label vertex) k s")
      case Nil
      with call first have new: "add_vertex g vertex = (r, g1)" by simp
      then have r: "r = fst (add_vertex g vertex)" and g1: "g1 = snd (add_vertex g vertex)"
        by simp_all
      have "vertices_by_property g1 (v_label vertex) k s = [r]"
        using k1 Nil by (simp add: g1 r vertices_by_property_add_vertex)
      moreover have "r \<in> set (vertices g1)" "v_label r = v_label vertex"
        "get_property_value (v_props r) k = Some (PStr s)"
        using k1 by (simp_all add: r g1 add_vertex_def Let_def)
      ultimately show ?thesis
        using second lab by simp
    next
      case (Cons r0 rest)
      with call first have old: "r = r0" "g1 = g" by simp_all
      have "r0 \<in> set (vertices_by_property g (v_label vertex) k s)"
        using Cons by simp
      then have "r0 \<in> set (vertices g)" "v_label r0 = v_label vertex"
        "get_property_value (v_props r0) k = Some (PStr s)"
        by (auto simp: vertices_by_property_def split: if_splits)
      then show ?thesis
        using second lab Cons old by simp
    qed
  qed
  have B: "r = vertex\<lparr>v_id := Some (next_id g)\<rparr> \<and> vertices g1 = vertices g @ [r] \<and>
         edges g1 = edges g"
    if "get_property_value (v_props vertex) k = Some (PStr s) \<and>
       vertices_by_property g (v_label vertex) k s = [] \<and>
       add_vertex_if_not_exists g vertex k = (r, g1)"
    using that add_vertex_if_not_exists_str [of vertex k s g]
    by (auto simp: add_vertex_def Let_def)
  show ?thesis using A B by blast
qed

lemma spliced_plain: "plain s \<Longrightarrow> spliced s = Some s"
  by (induction s) (auto simp: plain_def)

lemma spliced_escape_n:
  "plain s \<Longrightarrow> plain t \<Longrightarrow> spliced (s @ [CHR 0x5C, CHR ''n''] @ t) = Some (s @ [CHR 0x0A] @ t)"
  by (induction s) (auto simp: plain_def escape_char_def spliced_plain)

lemma spliced_reads_groovy: "reads_groovy spliced"
  unfolding reads_groovy_def using spliced_plain spliced_escape_n by blast

lemma add_vertex_if_not_exists_text_plain:
  assumes "reads_groovy read" "plain (v_label vertex)" "plain k"
    "plain (format_value (get_property_value (v_props vertex) k))"
  shows "add_vertex_if_not_exists_text read g vertex k = Inr (add_vertex_if_not_exists g vertex k)"
  using assms
  by (simp add: reads_groovy_def add_vertex_if_not_exists_text_def add_vertex_if_not_exists_def
      Let_def split: list.splits)

lemma add_vertex_if_not_exists_text_escape:
  assumes rd: "reads_groovy read" and pl: "plain (v_label vertex)" "plain k" "plain s" "plain t"
    and key: "get_property_value (v_props vertex) k = Some (PStr (s @ [CHR 0x5C, CHR ''n''] @ t))"
  shows "add_vertex_if_not_exists_text read g vertex k =
     (case vertices_by_property g (v_label vertex) k (s @ [CHR 0x0A] @ t) of
        r # _ \<Rightarrow> Inr (r, g) | [] \<Rightarrow> Inr (add_vertex g vertex))"
proof -
  from rd pl have "read (v_label vertex) = Some (v_label vertex)" "read k = Some k"
    "read (s @ [CHR 0x5C, CHR ''n''] @ t) = Some (s @ [CHR 0x0A] @ t)"
    unfolding reads_groovy_def by blast+
  then show ?thesis
    using key by (simp add: add_vertex_if_not_exists_text_def format_value_def)
qed

text \<open>
  C4. With the query as the text that the store sends. For a label, a property name and a
  key that are plain strings, the vertex that a first call of
  \<^verbatim>\<open>add_vertex_if_not_exists\<close> returns, and the graph it leaves, are what a second call
  with the same label and key returns and leaves, whatever other properties the second
  call passes. For a key with a backslash and \<^verbatim>\<open>n\<close> between plain strings, such as
  \<^verbatim>\<open>rice\noodles\<close>, in a graph with no vertex of that label whose name has a line feed
  there: the first call stores the vertex, the second call does not find it and stores a
  second vertex under another identifier, so the graph holds two vertices of the label
  with the key.
\<close>

theorem add_vertex_if_not_exists_text_twice:
  "(reads_groovy read \<and> plain (v_label vertex) \<and> plain k \<and> plain s \<and>
    get_property_value (v_props vertex) k = Some (PStr s) \<and>
    get_property_value (v_props vertex') k = Some (PStr s) \<and>
    v_label vertex' = v_label vertex \<and>
    add_vertex_if_not_exists_text read g vertex k = Inr (r, g1) \<longrightarrow>
      add_vertex_if_not_exists_text read g1 vertex' k = Inr (r, g1) \<and> r \<in> set (vertices g1) \<and>
      v_label r = v_label vertex \<and> get_property_value (v_props r) k = Some (PStr s))
   \<and> (reads_groovy read \<and> plain (v_label vertex) \<and> plain k \<and> plain s \<and> plain t \<and>
       get_property_value (v_props vertex) k = Some (PStr (s @ [CHR 0x5C, CHR ''n''] @ t)) \<and>
       get_property_value (v_props vertex') k = Some (PStr (s @ [CHR 0x5C, CHR ''n''] @ t)) \<and>
       v_label vertex' = v_label vertex \<and>
       vertices_by_property g (v_label vertex) k (s @ [CHR 0x0A] @ t) = [] \<longrightarrow>
         add_vertex_if_not_exists_text read g vertex k = Inr (add_vertex g vertex) \<and>
         add_vertex_if_not_exists_text read (snd (add_vertex g vertex)) vertex' k
           = Inr (add_vertex (snd (add_vertex g vertex)) vertex') \<and>
         v_id (fst (add_vertex (snd (add_vertex g vertex)) vertex'))
           \<noteq> v_id (fst (add_vertex g vertex)) \<and>
         vertices (snd (add_vertex (snd (add_vertex g vertex)) vertex'))
           = vertices g @ [vertex\<lparr>v_id := Some (next_id g)\<rparr>,
                           vertex'\<lparr>v_id := Some (Suc (next_id g))\<rparr>])"
proof -
  have A: "add_vertex_if_not_exists_text read g1 vertex' k = Inr (r, g1) \<and> r \<in> set (vertices g1) \<and>
      v_label r = v_label vertex \<and> get_property_value (v_props r) k = Some (PStr s)"
    if h: "reads_groovy read \<and> plain (v_label vertex) \<and> plain k \<and> plain s \<and>
      get_property_value (v_props vertex) k = Some (PStr s) \<and>
      get_property_value (v_props vertex') k = Some (PStr s) \<and>
      v_label vertex' = v_label vertex \<and>
      add_vertex_if_not_exists_text read g vertex k = Inr (r, g1)"
  proof -
    from h have rd: "reads_groovy read" and pl: "plain (v_label vertex)" "plain k" "plain s"
      and k1: "get_property_value (v_props vertex) k = Some (PStr s)"
      and k2: "get_property_value (v_props vertex') k = Some (PStr s)"
      and lab: "v_label vertex' = v_label vertex"
      and call: "add_vertex_if_not_exists_text read g vertex k = Inr (r, g1)" by simp_all
    have t1: "add_vertex_if_not_exists_text read g vertex k
                = Inr (add_vertex_if_not_exists g vertex k)"
      using rd pl k1 by (intro add_vertex_if_not_exists_text_plain) (simp_all add: format_value_def)
    have t2: "add_vertex_if_not_exists_text read g1 vertex' k
                = Inr (add_vertex_if_not_exists g1 vertex' k)"
      using rd pl k2 lab
      by (intro add_vertex_if_not_exists_text_plain) (simp_all add: format_value_def)
    from call t1 have "add_vertex_if_not_exists g vertex k = (r, g1)" by simp
    with k1 k2 lab
    have "add_vertex_if_not_exists g1 vertex' k = (r, g1) \<and> r \<in> set (vertices g1) \<and>
      v_label r = v_label vertex \<and> get_property_value (v_props r) k = Some (PStr s)"
      using add_vertex_if_not_exists_second_call [of vertex k s vertex' g r g1] by blast
    with t2 show ?thesis by simp
  qed
  have B: "add_vertex_if_not_exists_text read g vertex k = Inr (add_vertex g vertex) \<and>
         add_vertex_if_not_exists_text read (snd (add_vertex g vertex)) vertex' k
           = Inr (add_vertex (snd (add_vertex g vertex)) vertex') \<and>
         v_id (fst (add_vertex (snd (add_vertex g vertex)) vertex'))
           \<noteq> v_id (fst (add_vertex g vertex)) \<and>
         vertices (snd (add_vertex (snd (add_vertex g vertex)) vertex'))
           = vertices g @ [vertex\<lparr>v_id := Some (next_id g)\<rparr>,
                           vertex'\<lparr>v_id := Some (Suc (next_id g))\<rparr>]"
    if h: "reads_groovy read \<and> plain (v_label vertex) \<and> plain k \<and> plain s \<and> plain t \<and>
       get_property_value (v_props vertex) k = Some (PStr (s @ [CHR 0x5C, CHR ''n''] @ t)) \<and>
       get_property_value (v_props vertex') k = Some (PStr (s @ [CHR 0x5C, CHR ''n''] @ t)) \<and>
       v_label vertex' = v_label vertex \<and>
       vertices_by_property g (v_label vertex) k (s @ [CHR 0x0A] @ t) = []"
  proof -
    from h have rd: "reads_groovy read"
      and pl: "plain (v_label vertex)" "plain k" "plain s" "plain t"
      and k1: "get_property_value (v_props vertex) k = Some (PStr (s @ [CHR 0x5C, CHR ''n''] @ t))"
      and k2: "get_property_value (v_props vertex') k = Some (PStr (s @ [CHR 0x5C, CHR ''n''] @ t))"
      and lab: "v_label vertex' = v_label vertex"
      and none: "vertices_by_property g (v_label vertex) k (s @ [CHR 0x0A] @ t) = []" by simp_all
    from pl lab have pl': "plain (v_label vertex')" by simp
    have c1: "add_vertex_if_not_exists_text read g vertex k = Inr (add_vertex g vertex)"
      using add_vertex_if_not_exists_text_escape [OF rd pl k1, of g] none by simp
    have still: "vertices_by_property (snd (add_vertex g vertex)) (v_label vertex') k
                   (s @ [CHR 0x0A] @ t) = []"
      using none k1 lab by (simp add: vertices_by_property_add_vertex)
    have c2: "add_vertex_if_not_exists_text read (snd (add_vertex g vertex)) vertex' k
                = Inr (add_vertex (snd (add_vertex g vertex)) vertex')"
      using add_vertex_if_not_exists_text_escape [OF rd pl' pl(2-4) k2, of "snd (add_vertex g vertex)"]
        still by simp
    have c3: "v_id (fst (add_vertex (snd (add_vertex g vertex)) vertex'))
                \<noteq> v_id (fst (add_vertex g vertex))"
      by (simp add: add_vertex_def Let_def)
    have c4: "vertices (snd (add_vertex (snd (add_vertex g vertex)) vertex'))
           = vertices g @ [vertex\<lparr>v_id := Some (next_id g)\<rparr>,
                           vertex'\<lparr>v_id := Some (Suc (next_id g))\<rparr>]"
      by (simp add: add_vertex_def Let_def)
    from c1 c2 c3 c4 show ?thesis by (intro conjI)
  qed
  show ?thesis using A B by blast
qed

theorem add_vertex_if_not_exists_text_twice_witness:
  "reads_groovy spliced \<and> plain ''recipe'' \<and> plain ''name'' \<and> plain ''7''
   \<and> add_vertex_if_not_exists_text spliced example_graph
        \<lparr>v_id = None, v_label = ''recipe'',
          v_props = [(''name'', PStr ''7''), (''title'', PStr ''Pancake''), (''detail'', PStr ''Fry.'')]\<rparr>
        ''name''
      = Inr (\<lparr>v_id = Some 3, v_label = ''recipe'',
               v_props = [(''name'', PStr ''7''), (''title'', PStr ''Pancake''), (''detail'', PStr ''Fry.'')]\<rparr>,
             example_graph\<lparr>vertices := vertices example_graph @
               [\<lparr>v_id = Some 3, v_label = ''recipe'',
                 v_props = [(''name'', PStr ''7''), (''title'', PStr ''Pancake''), (''detail'', PStr ''Fry.'')]\<rparr>],
               next_id := 4\<rparr>)
   \<and> add_vertex_if_not_exists_text spliced
        (example_graph\<lparr>vertices := vertices example_graph @
               [\<lparr>v_id = Some 3, v_label = ''recipe'',
                 v_props = [(''name'', PStr ''7''), (''title'', PStr ''Pancake''), (''detail'', PStr ''Fry.'')]\<rparr>],
               next_id := 4\<rparr>)
        \<lparr>v_id = None, v_label = ''recipe'',
          v_props = [(''name'', PStr ''7''), (''title'', PStr ''Crepe''), (''detail'', PStr ''Bake.'')]\<rparr>
        ''name''
      = Inr (\<lparr>v_id = Some 3, v_label = ''recipe'',
               v_props = [(''name'', PStr ''7''), (''title'', PStr ''Pancake''), (''detail'', PStr ''Fry.'')]\<rparr>,
             example_graph\<lparr>vertices := vertices example_graph @
               [\<lparr>v_id = Some 3, v_label = ''recipe'',
                 v_props = [(''name'', PStr ''7''), (''title'', PStr ''Pancake''), (''detail'', PStr ''Fry.'')]\<rparr>],
               next_id := 4\<rparr>)
   \<and> plain ''ingredient'' \<and> plain ''rice'' \<and> plain ''oodles''
   \<and> get_property_value (v_props (noodles ''[]'')) ''name''
        = Some (PStr (''rice'' @ [CHR 0x5C, CHR ''n''] @ ''oodles''))
   \<and> vertices_by_property example_graph ''ingredient'' ''name'' (''rice'' @ [CHR 0x0A] @ ''oodles'') = []
   \<and> add_vertex_if_not_exists_text spliced example_graph (noodles ''[]'') ''name''
        = Inr (add_vertex example_graph (noodles ''[]''))
   \<and> add_vertex_if_not_exists_text spliced (snd (add_vertex example_graph (noodles ''[]'')))
          (noodles ''[1]'') ''name''
        = Inr (add_vertex (snd (add_vertex example_graph (noodles ''[]''))) (noodles ''[1]''))
   \<and> v_id (fst (add_vertex example_graph (noodles ''[]''))) = Some 3
   \<and> v_id (fst (add_vertex (snd (add_vertex example_graph (noodles ''[]''))) (noodles ''[1]'')))
        = Some 4
   \<and> vertices (snd (add_vertex (snd (add_vertex example_graph (noodles ''[]''))) (noodles ''[1]'')))
        = vertices example_graph @ [(noodles ''[]'')\<lparr>v_id := Some 3\<rparr>,
                                    (noodles ''[1]'')\<lparr>v_id := Some 4\<rparr>]"
proof -
  let ?v = "\<lparr>v_id = None, v_label = ''recipe'',
          v_props = [(''name'', PStr ''7''), (''title'', PStr ''Pancake''), (''detail'', PStr ''Fry.'')]\<rparr>"
  let ?v' = "\<lparr>v_id = None, v_label = ''recipe'',
       v_props = [(''name'', PStr ''7''), (''title'', PStr ''Crepe''), (''detail'', PStr ''Bake.'')]\<rparr>"
  let ?r = "\<lparr>v_id = Some 3, v_label = ''recipe'',
        v_props = [(''name'', PStr ''7''), (''title'', PStr ''Pancake''), (''detail'', PStr ''Fry.'')]\<rparr>"
  let ?g1 = "example_graph\<lparr>vertices := vertices example_graph @ [?r], next_id := 4\<rparr>"
  have pl: "plain ''recipe''" "plain ''name''" "plain ''7''" "plain ''ingredient''"
    "plain ''rice''" "plain ''oodles''"
    by (simp_all add: plain_def)
  have first: "add_vertex_if_not_exists_text spliced example_graph ?v ''name'' = Inr (?r, ?g1)"
    by (simp add: add_vertex_if_not_exists_text_def vertices_by_property_def example_graph_def
        get_property_value_def format_value_def add_vertex_def Let_def)
  have h: "reads_groovy spliced \<and> plain (v_label ?v) \<and> plain ''name'' \<and> plain ''7'' \<and>
    get_property_value (v_props ?v) ''name'' = Some (PStr ''7'') \<and>
    get_property_value (v_props ?v') ''name'' = Some (PStr ''7'') \<and>
    v_label ?v' = v_label ?v \<and>
    add_vertex_if_not_exists_text spliced example_graph ?v ''name'' = Inr (?r, ?g1)"
    using first pl spliced_reads_groovy by (simp add: get_property_value_def)
  have second: "add_vertex_if_not_exists_text spliced ?g1 ?v' ''name'' = Inr (?r, ?g1)"
    using add_vertex_if_not_exists_text_twice [where read = spliced and vertex = ?v
        and k = "''name''" and s = "''7''" and vertex' = ?v' and g = example_graph and r = ?r
        and ?g1.0 = ?g1, THEN conjunct1, THEN mp, OF h] by simp
  have key: "get_property_value (v_props (noodles ''[]'')) ''name''
        = Some (PStr (''rice'' @ [CHR 0x5C, CHR ''n''] @ ''oodles''))"
    "get_property_value (v_props (noodles ''[1]'')) ''name''
        = Some (PStr (''rice'' @ [CHR 0x5C, CHR ''n''] @ ''oodles''))"
    by (simp_all add: noodles_def get_property_value_def)
  have none: "vertices_by_property example_graph ''ingredient'' ''name''
                (''rice'' @ [CHR 0x0A] @ ''oodles'') = []"
    by (simp add: vertices_by_property_def example_graph_def get_property_value_def)
  have h2: "reads_groovy spliced \<and> plain (v_label (noodles ''[]'')) \<and> plain ''name'' \<and>
     plain ''rice'' \<and> plain ''oodles'' \<and>
     get_property_value (v_props (noodles ''[]'')) ''name''
       = Some (PStr (''rice'' @ [CHR 0x5C, CHR ''n''] @ ''oodles'')) \<and>
     get_property_value (v_props (noodles ''[1]'')) ''name''
       = Some (PStr (''rice'' @ [CHR 0x5C, CHR ''n''] @ ''oodles'')) \<and>
     v_label (noodles ''[1]'') = v_label (noodles ''[]'') \<and>
     vertices_by_property example_graph (v_label (noodles ''[]'')) ''name''
       (''rice'' @ [CHR 0x0A] @ ''oodles'') = []"
    using key none pl spliced_reads_groovy by (simp add: noodles_def)
  note T = add_vertex_if_not_exists_text_twice [where read = spliced and vertex = "noodles ''[]''"
        and k = "''name''" and s = "''rice''" and t = "''oodles''" and vertex' = "noodles ''[1]''"
        and g = example_graph, THEN conjunct2, THEN mp, OF h2]
  have ids: "v_id (fst (add_vertex example_graph (noodles ''[]''))) = Some 3"
    "v_id (fst (add_vertex (snd (add_vertex example_graph (noodles ''[]''))) (noodles ''[1]'')))
        = Some 4"
    by (simp_all add: add_vertex_def example_graph_def Let_def)
  have nid: "next_id example_graph = 3" by (simp add: example_graph_def)
  show ?thesis
    using spliced_reads_groovy pl first second key(1) none T ids
    by (simp only: nid simp_thms) simp
qed

subsection \<open>Empty responses\<close>

text \<open>
  C8. When the response of the graph service to the query is empty,
  \<^verbatim>\<open>find_favorite_recipes_for_user\<close> and the recommendation functions return the empty
  list; on the empty graph the responses are empty, whatever the ordering step and the
  runtime's string functions do.
  The functions return a list in every case: they have no exit by an error.
\<close>

theorem empty_response_empty_result:
  "(favorite_vertices ord g (format_value (get_property_value (v_props user_vertex) ''name'')) n = []
      \<longrightarrow> find_favorite_recipes_for_user ord g user_vertex n = [])
   \<and> get_recommended_recipes [] limit = []
   \<and> (recommended_paths ord' g ''ingredient'' (get_unique_ingredients_name is_space lower CHR '','' ingredients_str)
         (format_value (get_property_value (v_props user_vertex) ''name'')) = []
      \<longrightarrow> find_recommended_recipes_for_ingredient is_space lower ord' g ingredients_str user_vertex limit = [])
   \<and> (recommended_paths ord' g ''cuisine'' (get_unique_cuisine_name is_space lower cuisine)
         (format_value (get_property_value (v_props user_vertex) ''name'')) = []
      \<longrightarrow> find_recommended_recipes_for_cuisine is_space lower ord' g cuisine user_vertex limit = [])
   \<and> find_favorite_recipes_for_user ord empty_graph user_vertex n = []
   \<and> find_recommended_recipes_for_ingredient is_space lower ord' empty_graph ingredients_str user_vertex limit = []
   \<and> find_recommended_recipes_for_cuisine is_space lower ord' empty_graph cuisine user_vertex limit = []"
proof -
  have fav: "favorite_vertices ord empty_graph s n = []" for s
    by (simp add: favorite_vertices_def empty_graph_def)
  have rec: "recommended_paths ord' empty_graph l a u = []" for l a u
    by (simp add: recommended_paths_def empty_graph_def split_def)
  show ?thesis
    by (simp add: find_favorite_recipes_for_user_def find_recommended_recipes_for_ingredient_def
        find_recommended_recipes_for_cuisine_def get_recommended_recipes_def Let_def fav rec)
qed

theorem empty_response_empty_result_witness:
  "favorite_vertices (\<lambda>es. es) example_graph
       (format_value (get_property_value (v_props (hd (vertices example_graph))) ''name'')) 5 = []
   \<and> find_favorite_recipes_for_user (\<lambda>es. es) example_graph (hd (vertices example_graph)) 5 = []
   \<and> recommended_paths (\<lambda>ts. ts) example_graph ''ingredient'' 
       (get_unique_ingredients_name ascii_space ascii_lower CHR '','' ''Egg'')
       (format_value (get_property_value (v_props (hd (vertices example_graph))) ''name'')) = []
   \<and> find_recommended_recipes_for_ingredient ascii_space ascii_lower (\<lambda>ts. ts) example_graph ''Egg''
       (hd (vertices example_graph)) 5 = []
   \<and> recommended_paths (\<lambda>ts. ts) example_graph ''cuisine'' 
       (get_unique_cuisine_name ascii_space ascii_lower ''Thai'')
       (format_value (get_property_value (v_props (hd (vertices example_graph))) ''name'')) = []
   \<and> find_recommended_recipes_for_cuisine ascii_space ascii_lower (\<lambda>ts. ts) example_graph ''Thai''
       (hd (vertices example_graph)) 5 = []"
proof -
  have f: "favorite_vertices (\<lambda>es. es) example_graph
       (format_value (get_property_value (v_props (hd (vertices example_graph))) ''name'')) 5 = []"
    by (simp add: favorite_vertices_def example_graph_def)
  have i: "recommended_paths (\<lambda>ts. ts) example_graph ''ingredient'' 
       (get_unique_ingredients_name ascii_space ascii_lower CHR '','' ''Egg'')
       (format_value (get_property_value (v_props (hd (vertices example_graph))) ''name'')) = []"
    by (simp add: recommended_paths_def example_graph_def)
  have c: "recommended_paths (\<lambda>ts. ts) example_graph ''cuisine'' 
       (get_unique_cuisine_name ascii_space ascii_lower ''Thai'')
       (format_value (get_property_value (v_props (hd (vertices example_graph))) ''name'')) = []"
    by (simp add: recommended_paths_def example_graph_def)
  note T = empty_response_empty_result [where ord = "\<lambda>es. es" and g = example_graph
      and user_vertex = "hd (vertices example_graph)" and n = 5 and limit = 5
      and ord' = "\<lambda>ts. ts" and ingredients_str = "''Egg''" and cuisine = "''Thai''"
      and is_space = ascii_space and lower = ascii_lower]
  show ?thesis
    using f i c T [THEN conjunct1, THEN mp, OF f]
      T [THEN conjunct2, THEN conjunct2, THEN conjunct1, THEN mp, OF i]
      T [THEN conjunct2, THEN conjunct2, THEN conjunct2, THEN conjunct1, THEN mp, OF c]
    by (intro conjI)
qed

subsection \<open>The schema bootstrapper\<close>

lemma init_graph_ids: "graph_id \<in> set (graph_ids (init b graph_id))"
  by (simp add: init_def get_graphs_def create_graph_def set_graph_def get_schema_def
      save_schema_def Let_def)

lemma init_selected: "selected (init b graph_id) = Some graph_id"
  by (simp add: init_def get_graphs_def create_graph_def set_graph_def get_schema_def
      save_schema_def Let_def)

lemma init_schema:
  "\<exists>s ks. map_of (schemas (init b graph_id)) graph_id = Some s \<and> property_keys s = Some ks
     \<and> 0 < length ks"
  by (auto simp: init_def get_graphs_def create_graph_def set_graph_def get_schema_def
      save_schema_def Let_def update_conv' store_schema_def split: option.splits)

lemma init_again:
  assumes "graph_id \<in> set (graph_ids b)"
    "map_of (schemas b) graph_id = Some s" "property_keys s = Some ks" "0 < length ks"
  shows "init b graph_id =
    b\<lparr>selected := Some graph_id, calls := calls b @ [GetGraphs, SetGraph graph_id, GetSchema]\<rparr>"
  using assms
  by (simp add: init_def get_graphs_def set_graph_def get_schema_def Let_def)

text \<open>
  C9. Run on a service with no graph, \<^verbatim>\<open>init\<close> lists the graphs, creates the graph,
  selects it, fetches its schema and saves the schema of the store: the property keys
  \<^verbatim>\<open>name\<close>, \<^verbatim>\<open>title\<close> and \<^verbatim>\<open>detail\<close>, the vertex labels \<^verbatim>\<open>person\<close>, \<^verbatim>\<open>ingredient\<close>,
  \<^verbatim>\<open>cuisine\<close> and \<^verbatim>\<open>recipe\<close>, the edge label \<^verbatim>\<open>selects\<close> and one unique index, on
  \<^verbatim>\<open>name\<close>. Run again after any first run, it only lists the graphs, selects the graph
  and fetches the schema: no graph is created, no schema saved, and the graphs and
  schemas of the service stay as they are.
\<close>

theorem init_idempotent:
  "calls (init empty_service graph_id) =
     [GetGraphs, CreateGraph graph_id, SetGraph graph_id, GetSchema, SaveSchema store_schema]
   \<and> graph_ids (init empty_service graph_id) = [graph_id]
   \<and> schemas (init empty_service graph_id) = [(graph_id, store_schema)]
   \<and> map_option (map pk_name) (property_keys store_schema) = Some [''name'', ''title'', ''detail'']
   \<and> vertex_labels store_schema = [''person'', ''ingredient'', ''cuisine'', ''recipe'']
   \<and> edge_labels store_schema = [''selects'']
   \<and> map vi_property_keys (filter vi_unique (vertex_indexes store_schema)) = [[''name'']]
   \<and> length (vertex_indexes store_schema) = 1 \<and> edge_indexes store_schema = []
   \<and> calls (init (init b graph_id) graph_id) =
       calls (init b graph_id) @ [GetGraphs, SetGraph graph_id, GetSchema]
   \<and> graph_ids (init (init b graph_id) graph_id) = graph_ids (init b graph_id)
   \<and> schemas (init (init b graph_id) graph_id) = schemas (init b graph_id)
   \<and> selected (init (init b graph_id) graph_id) = selected (init b graph_id)"
proof -
  have first: "init empty_service graph_id =
      \<lparr>graph_ids = [graph_id], schemas = [(graph_id, store_schema)], selected = Some graph_id,
       calls = [GetGraphs, CreateGraph graph_id, SetGraph graph_id, GetSchema, SaveSchema store_schema]\<rparr>"
    by (simp add: init_def empty_service_def get_graphs_def create_graph_def set_graph_def
        get_schema_def save_schema_def Let_def)
  obtain s ks where s: "map_of (schemas (init b graph_id)) graph_id = Some s"
      "property_keys s = Some ks" "0 < length ks"
    using init_schema [of b graph_id] by blast
  have second: "init (init b graph_id) graph_id =
      (init b graph_id)\<lparr>selected := Some graph_id,
         calls := calls (init b graph_id) @ [GetGraphs, SetGraph graph_id, GetSchema]\<rparr>"
    by (rule init_again [OF init_graph_ids s])
  have sch: "map_option (map pk_name) (property_keys store_schema) = Some [''name'', ''title'', ''detail'']"
    "vertex_labels store_schema = [''person'', ''ingredient'', ''cuisine'', ''recipe'']"
    "edge_labels store_schema = [''selects'']"
    "map vi_property_keys (filter vi_unique (vertex_indexes store_schema)) = [[''name'']]"
    "length (vertex_indexes store_schema) = 1" "edge_indexes store_schema = []"
    by (simp_all add: store_schema_def)
  have c1: "calls (init empty_service graph_id) =
     [GetGraphs, CreateGraph graph_id, SetGraph graph_id, GetSchema, SaveSchema store_schema]"
    "graph_ids (init empty_service graph_id) = [graph_id]"
    "schemas (init empty_service graph_id) = [(graph_id, store_schema)]"
    by (simp_all only: first service.simps)
  have c2: "calls (init (init b graph_id) graph_id) =
       calls (init b graph_id) @ [GetGraphs, SetGraph graph_id, GetSchema]"
    "graph_ids (init (init b graph_id) graph_id) = graph_ids (init b graph_id)"
    "schemas (init (init b graph_id) graph_id) = schemas (init b graph_id)"
    "selected (init (init b graph_id) graph_id) = selected (init b graph_id)"
    by (simp_all add: second init_selected)
  show ?thesis
    using c1 c2 sch by (intro conjI)
qed

theorem init_idempotent_witness:
  "calls (init (init empty_service ''recipes'') ''recipes'') =
     [GetGraphs, CreateGraph ''recipes'', SetGraph ''recipes'', GetSchema, SaveSchema store_schema,
      GetGraphs, SetGraph ''recipes'', GetSchema]"
  using init_idempotent [of "''recipes''" empty_service] by simp

subsection \<open>The ordering step\<close>

lemma sort_by_count_decr_orders: "orders_by_count_decr edge_of (sort_by_count_decr edge_of)"
proof -
  have "sorted (map (\<lambda>t. - count_key (edge_of t)) (sort_by_count_decr edge_of ts))" for ts
    by (simp add: sort_by_count_decr_def)
  then have "sorted_wrt (\<lambda>x y. count_key (edge_of x) \<ge> count_key (edge_of y))
      (sort_by_count_decr edge_of ts)" for ts
    by (simp add: sorted_wrt_map)
  moreover have "mset (sort_by_count_decr edge_of ts) = mset ts" for ts
    by (simp add: sort_by_count_decr_def)
  ultimately show ?thesis
    by (simp add: orders_by_count_decr_def)
qed

subsection \<open>Graphs that the store can bring about\<close>

lemma vertices_by_property_filter:
  "vertices_by_property g label k s =
     filter (\<lambda>v. v_label v = label \<and> get_property_value (v_props v) k = Some (PStr s)) (vertices g)"
proof -
  have "concat (map (\<lambda>v. if v_label v = label
          then if get_property_value (v_props v) k = Some (PStr s) then [v] else [] else []) vs) =
      filter (\<lambda>v. v_label v = label \<and> get_property_value (v_props v) k = Some (PStr s)) vs"
    for vs :: "vertex list"
    by (induction vs) auto
  then show ?thesis by (simp add: vertices_by_property_def)
qed

lemma add_vertex_if_not_exists_cases:
  assumes "get_property_value (v_props vertex) k = Some (PStr s)"
  shows "(add_vertex_if_not_exists g vertex k = add_vertex g vertex \<and>
            vertices_by_property g (v_label vertex) k s = []) \<or>
         (snd (add_vertex_if_not_exists g vertex k) = g \<and>
            fst (add_vertex_if_not_exists g vertex k) \<in> set (vertices g) \<and>
            v_label (fst (add_vertex_if_not_exists g vertex k)) = v_label vertex)"
proof (cases "vertices_by_property g (v_label vertex) k s")
  case Nil
  then show ?thesis using add_vertex_if_not_exists_str [OF assms, of g] by simp
next
  case (Cons r rest)
  then have "r \<in> set (vertices_by_property g (v_label vertex) k s)" by simp
  then have "r \<in> set (vertices g)" "v_label r = v_label vertex"
    by (auto simp: vertices_by_property_filter)
  then show ?thesis using Cons add_vertex_if_not_exists_str [OF assms, of g] by simp
qed

lemma store_invariant_empty: "store_invariant empty_graph"
  by (simp add: store_invariant_def empty_graph_def)

lemma has_from_recipe_mono:
  "has_from_recipe g e \<Longrightarrow> set (vertices g) \<subseteq> set (vertices g') \<Longrightarrow> has_from_recipe g' e"
  by (auto simp: has_from_recipe_def list_ex_iff)

lemma store_invariant_add_vertex:
  assumes inv: "store_invariant g"
    and name: "get_property_value (v_props vertex) ''name'' = Some (PStr s)"
    and new: "vertices_by_property g (v_label vertex) ''name'' s = []"
  shows "store_invariant (snd (add_vertex g vertex))"
proof -
  let ?r = "vertex\<lparr>v_id := Some (next_id g)\<rparr>"
  have g': "snd (add_vertex g vertex) = g\<lparr>vertices := vertices g @ [?r], next_id := Suc (next_id g)\<rparr>"
    by (simp add: add_vertex_def Let_def)
  from inv have ids: "\<forall>v\<in>set (vertices g). \<exists>i. v_id v = Some i \<and> i < next_id g"
    by (auto simp: store_invariant_def list_all_iff split: option.splits)
  then have fresh: "Some (next_id g) \<notin> v_id ` set (vertices g)" by force
  from new have nokey: "(v_label vertex, Some (PStr s)) \<notin>
      (\<lambda>v. (v_label v, get_property_value (v_props v) ''name'')) ` set (vertices g)"
    by (auto simp: vertices_by_property_filter filter_empty_conv)
  have "list_all (has_from_recipe (snd (add_vertex g vertex))) (edges g)"
    using inv has_from_recipe_mono [of g _ "snd (add_vertex g vertex)"]
    by (auto simp: store_invariant_def list_all_iff g')
  with inv ids fresh nokey name show ?thesis
    by (auto simp: store_invariant_def g' list_all_iff named_def split: option.splits)
qed

lemma store_invariant_add_vertex_if_not_exists:
  assumes "store_invariant g" "get_property_value (v_props vertex) ''name'' = Some (PStr s)"
  shows "store_invariant (snd (add_vertex_if_not_exists g vertex ''name''))"
  using add_vertex_if_not_exists_cases [OF assms(2), of g] assms store_invariant_add_vertex
  by (metis)

lemma store_invariant_edges:
  assumes "store_invariant g" "vertices g' = vertices g" "next_id g \<le> next_id g'"
    "list_all (has_from_recipe g') (edges g')"
  shows "store_invariant g'"
  using assms by (auto simp: store_invariant_def list_all_iff split: option.splits)

lemma has_from_recipe_vertices:
  "vertices g' = vertices g \<Longrightarrow> has_from_recipe g' e = has_from_recipe g e"
  by (simp add: has_from_recipe_def)

lemma has_from_recipe_props:
  "has_from_recipe g e \<Longrightarrow> edge_count (e\<lparr>e_props := ps\<rparr>) \<noteq> None \<Longrightarrow>
   has_from_recipe g (e\<lparr>e_props := ps\<rparr>)"
  by (auto simp: has_from_recipe_def)

lemma store_invariant_add_edge:
  assumes "store_invariant g" "has_from_recipe g edge"
  shows "store_invariant (add_edge g edge)"
proof (rule store_invariant_edges [OF assms(1)])
  show "vertices (add_edge g edge) = vertices g" by (simp add: add_edge_def)
  show "next_id g \<le> next_id (add_edge g edge)" by (simp add: add_edge_def)
  have "has_from_recipe (add_edge g edge) e = has_from_recipe g e" for e
    by (rule has_from_recipe_vertices) (simp add: add_edge_def)
  moreover have "has_from_recipe g (edge\<lparr>e_id := Some (next_id g)\<rparr>)"
    using assms(2) by (simp add: has_from_recipe_def edge_count_def)
  ultimately show "list_all (has_from_recipe (add_edge g edge)) (edges (add_edge g edge))"
    using assms(1) by (simp add: store_invariant_def list_all_iff add_edge_def)
qed

lemma store_invariant_update_edge:
  assumes "store_invariant g" "edge_count edge \<noteq> None"
  shows "store_invariant (update_edge g edge)"
proof (rule store_invariant_edges [OF assms(1)])
  show "vertices (update_edge g edge) = vertices g" by (simp add: update_edge_def)
  show "next_id g \<le> next_id (update_edge g edge)" by (simp add: update_edge_def)
  have "has_from_recipe (update_edge g edge) e = has_from_recipe g e" for e
    by (rule has_from_recipe_vertices) (simp add: update_edge_def)
  moreover have "has_from_recipe g (x\<lparr>e_props := e_props edge\<rparr>)" if "has_from_recipe g x" for x
    using that assms(2) by (intro has_from_recipe_props) (simp_all add: edge_count_def)
  ultimately show "list_all (has_from_recipe (update_edge g edge)) (edges (update_edge g edge))"
    using assms(1)
    by (auto simp: store_invariant_def list_all_iff update_edge_def)
qed

lemma store_invariant_add_update_edge:
  assumes "store_invariant g" "add_update_edge g (selects_edge a b) = Inr g'"
  shows "store_invariant g'"
proof -
  have sel: "has_from_recipe g (selects_edge a b)"
    by (simp add: has_from_recipe_def selects_edge_def edge_count_def get_property_value_def)
  have upd: "store_invariant (update_edge g (x\<lparr>e_props := set_property_value (e_props x) ''count'' (PInt c)\<rparr>))"
    for x c
    by (rule store_invariant_update_edge [OF assms(1)]) (simp add: edge_count_def)
  from assms(2) show ?thesis
    using store_invariant_add_edge [OF assms(1) sel] upd
    by (auto simp: add_update_edge_def Let_def split: list.splits option.splits pval.splits)
qed

lemma store_invariant_add_edge_if_not_exists:
  assumes "store_invariant g" "has_from_recipe g edge"
  shows "store_invariant (add_edge_if_not_exists g edge)"
  using assms store_invariant_add_edge by (simp add: add_edge_if_not_exists_def Let_def)


lemma add_vertex_if_not_exists_result:
  assumes "get_property_value (v_props vertex) k = Some (PStr s)"
  shows "fst (add_vertex_if_not_exists g vertex k) \<in> set (vertices (snd (add_vertex_if_not_exists g vertex k)))
    \<and> v_label (fst (add_vertex_if_not_exists g vertex k)) = v_label vertex"
  using add_vertex_if_not_exists_cases [OF assms, of g]
  by (auto simp: add_vertex_def Let_def)

lemma add_update_edge_vertices:
  "add_update_edge g edge = Inr g' \<Longrightarrow> vertices g' = vertices g"
  by (auto simp: add_update_edge_def Let_def add_edge_def update_edge_def
      split: list.splits option.splits pval.splits)

lemma store_invariant_add_user: "store_invariant g \<Longrightarrow> store_invariant (snd (add_user g user_id))"
  unfolding add_user_def
  by (rule store_invariant_add_vertex_if_not_exists [where s = user_id])
    (simp_all add: get_property_value_def)

lemma store_invariant_try_selects:
  assumes "store_invariant g"
  shows "store_invariant
    (fst (case add_update_edge g (selects_edge a b) of
            Inl err \<Rightarrow> (g, Some err) | Inr g' \<Rightarrow> (g', None)))"
proof (cases "add_update_edge g (selects_edge a b)")
  case (Inl err)
  with assms show ?thesis by simp
next
  case (Inr g')
  with store_invariant_add_update_edge [OF assms Inr] show ?thesis by simp
qed

lemma store_invariant_record_ingredient:
  assumes "store_invariant g"
  shows "store_invariant (fst (record_ingredient_request_for_user g iv uv))"
proof (cases "v_id uv")
  case None
  with assms show ?thesis by (simp add: record_ingredient_request_for_user_def)
next
  case u: (Some u)
  show ?thesis
  proof (cases "v_id iv")
    case None
    with assms u show ?thesis by (simp add: record_ingredient_request_for_user_def)
  next
    case (Some i)
    with u store_invariant_try_selects [OF assms, of u i] show ?thesis
      by (simp add: record_ingredient_request_for_user_def)
  qed
qed

lemma store_invariant_record_cuisine:
  assumes "store_invariant g"
  shows "store_invariant (fst (record_cuisine_request_for_user g cv uv))"
proof (cases "v_id uv")
  case None
  with assms show ?thesis by (simp add: record_cuisine_request_for_user_def)
next
  case u: (Some u)
  show ?thesis
  proof (cases "v_id cv")
    case None
    with assms u show ?thesis by (simp add: record_cuisine_request_for_user_def)
  next
    case (Some i)
    with u store_invariant_try_selects [OF assms, of u i] show ?thesis
      by (simp add: record_cuisine_request_for_user_def)
  qed
qed

lemma store_invariant_add_ingredient:
  assumes "store_invariant g"
  shows "store_invariant (fst (add_ingredient is_space lower g ingredients_str matching_recipes user_vertex))"
proof -
  let ?v = "\<lparr>v_id = None, v_label = ''ingredient'',
      v_props = [(''name'', PStr (get_unique_ingredients_name is_space lower CHR '','' ingredients_str)),
                 (''detail'', PStr matching_recipes)]\<rparr>"
  obtain iv g1 where a: "add_vertex_if_not_exists g ?v ''name'' = (iv, g1)" by force
  have "store_invariant (snd (add_vertex_if_not_exists g ?v ''name''))"
    by (rule store_invariant_add_vertex_if_not_exists [OF assms]) (simp add: get_property_value_def)
  then have "store_invariant g1" by (simp add: a)
  then have "store_invariant (fst (record_ingredient_request_for_user g1 iv user_vertex))"
    by (rule store_invariant_record_ingredient)
  then show ?thesis
    by (cases "record_ingredient_request_for_user g1 iv user_vertex")
      (simp add: add_ingredient_def a split: option.splits)
qed

lemma store_invariant_add_cuisine:
  assumes "store_invariant g"
  shows "store_invariant (fst (add_cuisine is_space lower g cuisine_str matching_recipes user_vertex))"
proof -
  let ?v = "\<lparr>v_id = None, v_label = ''cuisine'',
      v_props = [(''name'', PStr (get_unique_cuisine_name is_space lower cuisine_str)),
                 (''detail'', PStr matching_recipes)]\<rparr>"
  obtain cv g1 where a: "add_vertex_if_not_exists g ?v ''name'' = (cv, g1)" by force
  have "store_invariant (snd (add_vertex_if_not_exists g ?v ''name''))"
    by (rule store_invariant_add_vertex_if_not_exists [OF assms]) (simp add: get_property_value_def)
  then have "store_invariant g1" by (simp add: a)
  then have "store_invariant (fst (record_cuisine_request_for_user g1 cv user_vertex))"
    by (rule store_invariant_record_cuisine)
  then show ?thesis
    by (cases "record_cuisine_request_for_user g1 cv user_vertex")
      (simp add: add_cuisine_def a split: option.splits)
qed

lemma store_invariant_record_recipe:
  assumes inv: "store_invariant g" and rv: "rv \<in> set (vertices g)" "v_label rv = ''recipe''"
  shows "store_invariant (fst (record_recipe_request_for_user g rv icv uv))"
proof -
  have final: "store_invariant (add_edge_if_not_exists g2 (has_edge r i))"
    if "store_invariant g2" "vertices g2 = vertices g" "v_id rv = Some r" for g2 r i
  proof (rule store_invariant_add_edge_if_not_exists [OF that(1)])
    show "has_from_recipe g2 (has_edge r i)"
      using rv that(2,3) by (auto simp: has_from_recipe_def has_edge_def list_ex_iff)
  qed
  show ?thesis
  proof (cases "v_id uv")
    case None
    with inv show ?thesis by (simp add: record_recipe_request_for_user_def)
  next
    case u: (Some u)
    show ?thesis
    proof (cases "v_id rv")
      case None
      with inv u show ?thesis by (simp add: record_recipe_request_for_user_def)
    next
      case r: (Some r)
      show ?thesis
      proof (cases "add_update_edge g (selects_edge u r)")
        case (Inl err)
        with inv u r show ?thesis by (simp add: record_recipe_request_for_user_def)
      next
        case g1: (Inr g1)
        have inv1: "store_invariant g1" by (rule store_invariant_add_update_edge [OF inv g1])
        have v1: "vertices g1 = vertices g" by (rule add_update_edge_vertices [OF g1])
        show ?thesis
        proof (cases icv)
          case None
          with inv1 u r g1 show ?thesis by (simp add: record_recipe_request_for_user_def)
        next
          case ic: (Some ic)
          show ?thesis
          proof (cases "v_id ic")
            case None
            with inv1 u r g1 ic show ?thesis by (simp add: record_recipe_request_for_user_def)
          next
            case i: (Some i)
            show ?thesis
            proof (cases "add_update_edge g1 (selects_edge i r)")
              case (Inl err)
              with inv1 u r g1 ic i show ?thesis by (simp add: record_recipe_request_for_user_def)
            next
              case g2: (Inr g2)
              have inv2: "store_invariant g2" by (rule store_invariant_add_update_edge [OF inv1 g2])
              have v2: "vertices g2 = vertices g"
                using add_update_edge_vertices [OF g2] v1 by simp
              from final [OF inv2 v2 r] u r g1 ic i g2 show ?thesis
                by (simp add: record_recipe_request_for_user_def)
            qed
          qed
        qed
      qed
    qed
  qed
qed

lemma store_invariant_add_recipe:
  assumes "store_invariant g"
  shows "store_invariant (fst (add_recipe is_space lower g recipe_id recipe_title recipe_detail icv
           user_vertex))"
proof -
  let ?v = "\<lparr>v_id = None, v_label = ''recipe'',
      v_props = [(''name'', PStr (get_unique_recipe_name is_space lower recipe_id)),
                 (''title'', PStr (strip is_space recipe_title)),
                 (''detail'', PStr recipe_detail)]\<rparr>"
  have name: "get_property_value (v_props ?v) ''name''
                = Some (PStr (get_unique_recipe_name is_space lower recipe_id))"
    by (simp add: get_property_value_def)
  obtain rv g1 where a: "add_vertex_if_not_exists g ?v ''name'' = (rv, g1)" by force
  have "store_invariant (snd (add_vertex_if_not_exists g ?v ''name''))"
    by (rule store_invariant_add_vertex_if_not_exists [OF assms name])
  then have inv1: "store_invariant g1" by (simp add: a)
  from add_vertex_if_not_exists_result [OF name, of g]
  have rv: "rv \<in> set (vertices g1)" "v_label rv = ''recipe''" by (simp_all add: a)
  have "store_invariant (fst (record_recipe_request_for_user g1 rv icv user_vertex))"
    by (rule store_invariant_record_recipe [OF inv1 rv])
  then show ?thesis
    by (cases "record_recipe_request_for_user g1 rv icv user_vertex")
      (simp add: add_recipe_def a split: option.splits)
qed

lemma reachable_store_invariant: "reachable g \<Longrightarrow> store_invariant g"
proof (induction rule: reachable.induct)
  case reachable_empty
  show ?case by (rule store_invariant_empty)
next
  case (reachable_add_user g user_id)
  then show ?case by (simp add: store_invariant_add_user)
next
  case (reachable_add_ingredient g is_space lower ingredients_str matching_recipes user_vertex)
  then show ?case by (simp add: store_invariant_add_ingredient)
next
  case (reachable_add_cuisine g is_space lower cuisine_str matching_recipes user_vertex)
  then show ?case by (simp add: store_invariant_add_cuisine)
next
  case (reachable_add_recipe g is_space lower recipe_id recipe_title recipe_detail
    ingredient_cuisine_vertex user_vertex)
  then show ?case by (simp add: store_invariant_add_recipe)
qed


subsection \<open>Recommended recipes\<close>

lemma recommended_paths_triples:
  "recommended_paths ord g l an un =
     [(a, r, e, p).
        (a, r, e) \<leftarrow> ord (recommended_triples g l an),
        p \<leftarrow> vertices g, v_id p = Some (out_v e),
        v_label p = ''person'',
        get_property_value (v_props p) ''name'' \<noteq> None,
        get_property_value (v_props p) ''name'' \<noteq> Some (PStr un)]"
  by (simp add: recommended_paths_def recommended_triples_def)

lemma mem_recommended_triples:
  "(a, r, e) \<in> set (recommended_triples g l an) \<longleftrightarrow>
     a \<in> set (vertices g) \<and> v_label a = l \<and>
     get_property_value (v_props a) ''name'' = Some (PStr an) \<and>
     (\<exists>h\<in>set (edges g). Some (in_v h) = v_id a \<and> e_label h = ''has'' \<and> v_id r = Some (out_v h)) \<and>
     r \<in> set (vertices g) \<and> e \<in> set (edges g) \<and> Some (in_v e) = v_id r \<and> count_gt 1 e"
  by (auto simp: recommended_triples_def split: if_splits)

lemma set_ord_triples:
  assumes "orders_by_count_decr (\<lambda>(a, r, e). e) ord"
  shows "set (ord (recommended_triples g l an)) = set (recommended_triples g l an)"
proof -
  have "list_all (\<lambda>t. edge_count ((\<lambda>(a, r, e). e) t) \<noteq> None) (recommended_triples g l an)"
    by (auto simp: list_all_iff mem_recommended_triples count_gt_def split: option.splits)
  with assms have "mset (ord (recommended_triples g l an)) = mset (recommended_triples g l an)"
    by (simp add: orders_by_count_decr_def)
  then show ?thesis by (rule mset_eq_setD)
qed

lemma mem_recommended_paths:
  assumes "orders_by_count_decr (\<lambda>(a, r, e). e) ord"
  shows "(a, r, e, p) \<in> set (recommended_paths ord g l an un) \<longleftrightarrow>
     (a, r, e) \<in> set (recommended_triples g l an) \<and>
     p \<in> set (vertices g) \<and> v_id p = Some (out_v e) \<and> v_label p = ''person'' \<and>
     get_property_value (v_props p) ''name'' \<noteq> None \<and>
     get_property_value (v_props p) ''name'' \<noteq> Some (PStr un)"
  using set_ord_triples [OF assms, of g l an]
  by (auto simp: recommended_paths_triples split: if_splits)


lemma store_invariant_same_id:
  assumes "store_invariant g" "v \<in> set (vertices g)" "w \<in> set (vertices g)" "v_id v = v_id w"
  shows "v = w"
  using assms by (auto simp: store_invariant_def distinct_map dest: inj_onD)

lemma store_invariant_same_key:
  assumes "store_invariant g" "v \<in> set (vertices g)" "w \<in> set (vertices g)"
    "v_label v = v_label w"
    "get_property_value (v_props v) ''name'' = get_property_value (v_props w) ''name''"
  shows "v = w"
proof -
  from assms(1) have "inj_on (\<lambda>v. (v_label v, get_property_value (v_props v) ''name'')) (set (vertices g))"
    by (simp add: store_invariant_def distinct_map)
  then show ?thesis using assms(2-5) by (auto dest: inj_onD)
qed

lemma store_invariant_has_source:
  assumes "store_invariant g" "h \<in> set (edges g)" "e_label h = ''has''"
    "r \<in> set (vertices g)" "v_id r = Some (out_v h)"
  shows "v_label r = ''recipe''"
proof -
  from assms(1,2) have "has_from_recipe g h"
    by (simp add: store_invariant_def list_all_iff)
  with assms(3) obtain r' where r': "r' \<in> set (vertices g)" "v_id r' = Some (out_v h)"
      "v_label r' = ''recipe''"
    by (auto simp: has_from_recipe_def list_ex_iff)
  with store_invariant_same_id [OF assms(1) assms(4) r'(1)] assms(5) show ?thesis by simp
qed

lemma store_invariant_named:
  assumes "store_invariant g" "v \<in> set (vertices g)"
  shows "\<exists>s. get_property_value (v_props v) ''name'' = Some (PStr s)"
proof -
  from assms have "named v" by (simp add: store_invariant_def list_all_iff)
  then show ?thesis
    by (cases "get_property_value (v_props v) ''name''"; cases "the (get_property_value (v_props v) ''name'')")
      (simp_all add: named_def)
qed

lemma recommended_ids_from_paths:
  "r_id ` set (get_recommended_recipes paths n) \<subseteq> path_recipe_id ` set paths"
proof -
  have "get_recommended_recipes paths n =
      map (entry_for paths) (take (nat n) (first_seen (map path_recipe_id paths)))"
    by (cases "paths = []") (simp_all add: get_recommended_recipes_def reduce_all first_seen_def)
  moreover have "set (take (nat n) (first_seen (map path_recipe_id paths))) \<subseteq> path_recipe_id ` set paths"
    using set_take_subset [of "nat n" "first_seen (map path_recipe_id paths)"]
    by (simp add: set_first_seen)
  ultimately show ?thesis
    by (auto simp: entry_for_def)
qed

lemma once_not_in_paths:
  assumes ord: "orders_by_count_decr (\<lambda>(a, r, e). e) ord"
    and once: "selected_once_by_others g x un"
  shows "x \<notin> path_object1 ` set (recommended_paths ord g l an un)"
proof
  assume "x \<in> path_object1 ` set (recommended_paths ord g l an un)"
  then obtain a e p where "(a, x, e, p) \<in> set (recommended_paths ord g l an un)"
    by (auto simp: path_object1_def)
  then have m: "e \<in> set (edges g)" "Some (in_v e) = v_id x" "count_gt 1 e"
      "p \<in> set (vertices g)" "v_id p = Some (out_v e)" "v_label p = ''person''"
      "get_property_value (v_props p) ''name'' \<noteq> Some (PStr un)"
    by (simp_all add: mem_recommended_paths [OF ord] mem_recommended_triples)
  with once have "edge_count e = Some 1"
    by (auto simp: selected_once_by_others_def list_all_iff)
  with m(3) show False by (simp add: count_gt_def)
qed

lemma once_not_in_result:
  assumes ord: "orders_by_count_decr (\<lambda>(a, r, e). e) ord"
    and reach: "reachable g"
    and x: "x \<in> set (vertices g)" "v_label x = ''recipe''"
    and once: "selected_once_by_others g x un"
  shows "get_property_value (v_props x) ''name'' \<notin>
    r_id ` set (get_recommended_recipes (recommended_paths ord g l an un) n)"
proof
  note inv = reachable_store_invariant [OF reach]
  assume "get_property_value (v_props x) ''name'' \<in>
    r_id ` set (get_recommended_recipes (recommended_paths ord g l an un) n)"
  with recommended_ids_from_paths [of "recommended_paths ord g l an un" n]
  obtain path where path: "path \<in> set (recommended_paths ord g l an un)"
      "path_recipe_id path = get_property_value (v_props x) ''name''"
    by force
  obtain a r e p where [simp]: "path = (a, r, e, p)" by (cases path) auto
  from path(1) have t: "(a, r, e) \<in> set (recommended_triples g l an)"
    by (simp add: mem_recommended_paths [OF ord])
  then obtain h where h: "h \<in> set (edges g)" "e_label h = ''has''" "v_id r = Some (out_v h)"
    and r: "r \<in> set (vertices g)"
    by (auto simp: mem_recommended_triples)
  have "v_label r = ''recipe''"
    by (rule store_invariant_has_source [OF inv h(1,2) r h(3)])
  moreover from path(2) have "get_property_value (v_props r) ''name'' = get_property_value (v_props x) ''name''"
    by (simp add: path_recipe_id_def path_object1_def)
  ultimately have "r = x"
    using store_invariant_same_key [OF inv r x(1)] x(2) by simp
  with path(1) have "x \<in> path_object1 ` set (recommended_paths ord g l an un)"
    by (force simp: path_object1_def)
  with once_not_in_paths [OF ord once] show False by blast
qed

text \<open>
  C7. With an ordering step that returns its input sorted by descending count: every
  path of the recommendation traversal, for an ingredient or a cuisine, runs over a
  stored edge into the recipe with a count above 1, and ends in a person vertex at the
  tail of that edge whose name is not the requesting user's. In a graph that the store
  can bring about that edge is labelled \<^verbatim>\<open>selects\<close> and does not leave the requesting
  user's vertex. A recipe whose edges from other users all have count 1 is on no path,
  and in a graph that the store can bring about its name is in no result.
\<close>

theorem recommended_only_repeated_selects_of_others:
  "(orders_by_count_decr (\<lambda>(a, r, e). e) ord \<and>
    (a, r, e, p) \<in> set (recommended_paths ord g l an un) \<longrightarrow>
      e \<in> set (edges g) \<and> (\<exists>c. edge_count e = Some c \<and> 1 < c) \<and> Some (in_v e) = v_id r \<and>
      p \<in> set (vertices g) \<and> v_id p = Some (out_v e) \<and> v_label p = ''person'' \<and>
      get_property_value (v_props p) ''name'' \<noteq> Some (PStr un))
   \<and> (orders_by_count_decr (\<lambda>(a, r, e). e) ord \<and> reachable g \<and>
       (a, r, e, p) \<in> set (recommended_paths ord g l an un) \<longrightarrow> e_label e = ''selects'')
   \<and> (orders_by_count_decr (\<lambda>(a, r, e). e) ord \<and> reachable g \<and>
       user_vertex \<in> set (vertices g) \<and>
       (a, r, e, p) \<in> set (recommended_paths ord g l an
          (format_value (get_property_value (v_props user_vertex) ''name''))) \<longrightarrow>
         p \<noteq> user_vertex \<and> Some (out_v e) \<noteq> v_id user_vertex)
   \<and> (orders_by_count_decr (\<lambda>(a, r, e). e) ord \<and> selected_once_by_others g x un \<longrightarrow>
         x \<notin> path_object1 ` set (recommended_paths ord g l an un))
   \<and> (orders_by_count_decr (\<lambda>(a, r, e). e) ord \<and> reachable g \<and>
       x \<in> set (vertices g) \<and> v_label x = ''recipe'' \<and>
       selected_once_by_others g x (format_value (get_property_value (v_props user_vertex) ''name'')) \<longrightarrow>
         get_property_value (v_props x) ''name'' \<notin>
           r_id ` set (find_recommended_recipes_for_ingredient is_space lower ord g ingredients_str user_vertex n) \<and>
         get_property_value (v_props x) ''name'' \<notin>
           r_id ` set (find_recommended_recipes_for_cuisine is_space lower ord g cuisine user_vertex n))"
proof -
  have p1: "e \<in> set (edges g) \<and> (\<exists>c. edge_count e = Some c \<and> 1 < c) \<and> Some (in_v e) = v_id r \<and>
      p \<in> set (vertices g) \<and> v_id p = Some (out_v e) \<and> v_label p = ''person'' \<and>
      get_property_value (v_props p) ''name'' \<noteq> Some (PStr un)"
    if "orders_by_count_decr (\<lambda>(a, r, e). e) ord \<and>
      (a, r, e, p) \<in> set (recommended_paths ord g l an un)" for un
    using that
    by (auto simp: mem_recommended_paths mem_recommended_triples count_gt_def split: option.splits)
  have p2: "e_label e = ''selects''"
    if h: "orders_by_count_decr (\<lambda>(a, r, e). e) ord \<and> reachable g \<and>
      (a, r, e, p) \<in> set (recommended_paths ord g l an un)" for un
  proof -
    from h have inv: "store_invariant g" by (simp add: reachable_store_invariant)
    from p1 [of un] h have e: "e \<in> set (edges g)" and p: "p \<in> set (vertices g)"
      "v_id p = Some (out_v e)" "v_label p = ''person''" by simp_all
    from inv e have "has_from_recipe g e" by (simp add: store_invariant_def list_all_iff)
    moreover have "e_label e \<noteq> ''has''"
    proof
      assume "e_label e = ''has''"
      from store_invariant_has_source [OF inv e this p(1,2)] p(3) show False by simp
    qed
    ultimately show ?thesis by (simp add: has_from_recipe_def)
  qed
  have p3: "p \<noteq> user_vertex \<and> Some (out_v e) \<noteq> v_id user_vertex"
    if h: "orders_by_count_decr (\<lambda>(a, r, e). e) ord \<and> reachable g \<and>
       user_vertex \<in> set (vertices g) \<and>
       (a, r, e, p) \<in> set (recommended_paths ord g l an
          (format_value (get_property_value (v_props user_vertex) ''name'')))"
  proof -
    from h have inv: "store_invariant g" by (simp add: reachable_store_invariant)
    from h have u: "user_vertex \<in> set (vertices g)" by simp
    from store_invariant_named [OF inv u] obtain s where
      s: "get_property_value (v_props user_vertex) ''name'' = Some (PStr s)" by blast
    then have f: "format_value (get_property_value (v_props user_vertex) ''name'') = s"
      by (simp add: format_value_def)
    from p1 [of s] h f have p: "p \<in> set (vertices g)" "v_id p = Some (out_v e)"
      "get_property_value (v_props p) ''name'' \<noteq> Some (PStr s)" by simp_all
    from p(3) s have ne: "p \<noteq> user_vertex" by auto
    with store_invariant_same_id [OF inv p(1) u] p(2) show ?thesis by auto
  qed
  have p4: "x \<notin> path_object1 ` set (recommended_paths ord g l an un)"
    if "orders_by_count_decr (\<lambda>(a, r, e). e) ord \<and> selected_once_by_others g x un"
    using that once_not_in_paths by blast
  have p5: "get_property_value (v_props x) ''name'' \<notin>
           r_id ` set (find_recommended_recipes_for_ingredient is_space lower ord g ingredients_str user_vertex n) \<and>
         get_property_value (v_props x) ''name'' \<notin>
           r_id ` set (find_recommended_recipes_for_cuisine is_space lower ord g cuisine user_vertex n)"
    if h: "orders_by_count_decr (\<lambda>(a, r, e). e) ord \<and> reachable g \<and>
       x \<in> set (vertices g) \<and> v_label x = ''recipe'' \<and>
       selected_once_by_others g x (format_value (get_property_value (v_props user_vertex) ''name''))"
  proof -
    from h have a: "orders_by_count_decr (\<lambda>(a, r, e). e) ord" "reachable g"
      "x \<in> set (vertices g)" "v_label x = ''recipe''"
      "selected_once_by_others g x (format_value (get_property_value (v_props user_vertex) ''name''))"
      by simp_all
    show ?thesis
      unfolding find_recommended_recipes_for_ingredient_def find_recommended_recipes_for_cuisine_def Let_def
      using once_not_in_result [OF a] by blast
  qed
  show ?thesis
    using p1 [of un] p2 [of un] p3 p4 p5 by blast
qed


lemma recommend_example_built:
  "fst (add_recipe ascii_space ascii_lower
      (fst (add_recipe ascii_space ascii_lower
        (fst (add_recipe ascii_space ascii_lower
          (fst (add_ingredient ascii_space ascii_lower
            (snd (add_user (snd (add_user empty_graph ''W'')) ''U'')) ''Egg'' ''[]'' ex_w))
          (PInt 42) ''Omelette'' ''Whisk.'' (Some ex_egg) ex_w))
        (PInt 42) ''Omelette'' ''Whisk.'' (Some ex_egg) ex_w))
      (PInt 7) '' Pancake '' ''Fry.'' (Some ex_egg) ex_w) = recommend_example"
  by code_simp

lemma reachable_recommend_example: "reachable recommend_example"
  unfolding recommend_example_built [symmetric]
  by (intro reachable.intros)


theorem recommended_only_repeated_selects_of_others_witness:
  "recommended_paths (sort_by_count_decr (\<lambda>(a, r, e). e)) recommend_example ''ingredient'' ''egg'' ''U''
     = [(ex_egg, ex_omelette, ex_w_omelette, ex_w)]
   \<and> reachable recommend_example
   \<and> ex_w_omelette \<in> set (edges recommend_example)
   \<and> (\<exists>c. edge_count ex_w_omelette = Some c \<and> 1 < c)
   \<and> Some (in_v ex_w_omelette) = v_id ex_omelette
   \<and> v_id ex_w = Some (out_v ex_w_omelette) \<and> v_label ex_w = ''person''
   \<and> get_property_value (v_props ex_w) ''name'' \<noteq> Some (PStr ''U'')
   \<and> e_label ex_w_omelette = ''selects''
   \<and> ex_w \<noteq> ex_u \<and> Some (out_v ex_w_omelette) \<noteq> v_id ex_u
   \<and> selected_once_by_others recommend_example ex_pancake ''U''
   \<and> ex_pancake \<notin> path_object1 ` set (recommended_paths (sort_by_count_decr (\<lambda>(a, r, e). e))
        recommend_example ''ingredient'' ''egg'' ''U'')
   \<and> Some (PStr ''7'') \<notin> r_id ` set (find_recommended_recipes_for_ingredient
        ascii_space ascii_lower (sort_by_count_decr (\<lambda>(a, r, e). e)) recommend_example ''Egg'' ex_u 5)
   \<and> Some (PStr ''7'') \<notin> r_id ` set (find_recommended_recipes_for_cuisine
        ascii_space ascii_lower (sort_by_count_decr (\<lambda>(a, r, e). e)) recommend_example ''Thai'' ex_u 5)"
proof -
  let ?ord = "sort_by_count_decr (\<lambda>(a, r, e). e) :: (vertex \<times> vertex \<times> edge) list \<Rightarrow> _"
  have o: "orders_by_count_decr (\<lambda>(a, r, e). e) ?ord"
    by (rule sort_by_count_decr_orders)
  have paths: "recommended_paths ?ord recommend_example ''ingredient'' ''egg'' ''U''
     = [(ex_egg, ex_omelette, ex_w_omelette, ex_w)]"
    by code_simp
  have name_u: "format_value (get_property_value (v_props ex_u) ''name'') = ''U''"
    by code_simp
  have name_x: "get_property_value (v_props ex_pancake) ''name'' = Some (PStr ''7'')"
    by code_simp
  have mem: "(ex_egg, ex_omelette, ex_w_omelette, ex_w) \<in>
      set (recommended_paths ?ord recommend_example ''ingredient'' ''egg'' ''U'')"
    by (simp add: paths)
  have u: "ex_u \<in> set (vertices recommend_example)"
    by (simp add: recommend_example_def)
  have x: "ex_pancake \<in> set (vertices recommend_example)" "v_label ex_pancake = ''recipe''"
    by (simp_all add: recommend_example_def ex_pancake_def)
  have once: "selected_once_by_others recommend_example ex_pancake ''U''"
    by code_simp
  note T = recommended_only_repeated_selects_of_others [where ord = ?ord and a = ex_egg
      and r = ex_omelette and e = ex_w_omelette and p = ex_w and g = recommend_example
      and l = "''ingredient''" and an = "''egg''" and un = "''U''" and user_vertex = ex_u
      and x = ex_pancake and ingredients_str = "''Egg''" and n = 5 and cuisine = "''Thai''"
      and is_space = ascii_space and lower = ascii_lower]
  have c1: "ex_w_omelette \<in> set (edges recommend_example)
   \<and> (\<exists>c. edge_count ex_w_omelette = Some c \<and> 1 < c)
   \<and> Some (in_v ex_w_omelette) = v_id ex_omelette
   \<and> ex_w \<in> set (vertices recommend_example)
   \<and> v_id ex_w = Some (out_v ex_w_omelette) \<and> v_label ex_w = ''person''
   \<and> get_property_value (v_props ex_w) ''name'' \<noteq> Some (PStr ''U'')"
    using T [THEN conjunct1] o mem by blast
  have c2: "e_label ex_w_omelette = ''selects''"
    using T [THEN conjunct2, THEN conjunct1] o mem reachable_recommend_example by blast
  have c3: "ex_w \<noteq> ex_u \<and> Some (out_v ex_w_omelette) \<noteq> v_id ex_u"
    using T [THEN conjunct2, THEN conjunct2, THEN conjunct1] o mem reachable_recommend_example u
    unfolding name_u by blast
  have c4: "ex_pancake \<notin> path_object1 ` set (recommended_paths ?ord recommend_example ''ingredient'' ''egg'' ''U'')"
    using T [THEN conjunct2, THEN conjunct2, THEN conjunct2, THEN conjunct1] o once by blast
  have c5: "Some (PStr ''7'') \<notin> r_id ` set (find_recommended_recipes_for_ingredient
        ascii_space ascii_lower ?ord
        recommend_example ''Egg'' ex_u 5)
   \<and> Some (PStr ''7'') \<notin> r_id ` set (find_recommended_recipes_for_cuisine
        ascii_space ascii_lower ?ord
        recommend_example ''Thai'' ex_u 5)"
    using T [THEN conjunct2, THEN conjunct2, THEN conjunct2, THEN conjunct2] o once
      reachable_recommend_example x
    unfolding name_u name_x by blast
  show ?thesis
    using paths reachable_recommend_example c1 c2 c3 once c4 c5 by blast
qed

subsection \<open>Favourite recipes\<close>

lemma favorite_vertices_targets:
  "favorite_vertices ord g s n =
     take n (concat (map (recipe_targets g) (ord (user_out_edges g s))))"
  by (simp add: favorite_vertices_def user_out_edges_def recipe_targets_def [abs_def])

lemma find_favorite_map:
  "find_favorite_recipes_for_user ord g user_vertex n =
     map favorite_of
       (favorite_vertices ord g (format_value (get_property_value (v_props user_vertex) ''name'')) n)"
  by (simp add: find_favorite_recipes_for_user_def Let_def favorite_of_def)

lemma map_snd_pairs:
  "map snd (concat (map (\<lambda>e. map (Pair e) (f e)) xs)) = concat (map f xs)"
  by (induction xs) (simp_all add: o_def)

lemma mset_concat_map_cong:
  "mset xs = mset ys \<Longrightarrow> mset (concat (map f xs)) = mset (concat (map f ys))"
proof -
  assume "mset xs = mset ys"
  then have "image_mset (\<lambda>x. mset (f x)) (mset xs) = image_mset (\<lambda>x. mset (f x)) (mset ys)"
    by simp
  then have "sum_mset (image_mset (\<lambda>x. mset (f x)) (mset xs)) =
      sum_mset (image_mset (\<lambda>x. mset (f x)) (mset ys))" by simp
  moreover have "mset (concat (map f zs)) = sum_mset (image_mset (\<lambda>x. mset (f x)) (mset zs))" for zs
    by (induction zs) simp_all
  ultimately show ?thesis by simp
qed

lemma sorted_wrt_pairs:
  assumes "sorted_wrt R xs" "\<And>x. R x x"
  shows "sorted_wrt (\<lambda>p q. R (fst p) (fst q)) (concat (map (\<lambda>e. map (Pair e) (f e)) xs))"
  using assms(1)
proof (induction xs)
  case Nil
  then show ?case by simp
next
  case (Cons x xs)
  have "sorted_wrt (\<lambda>p q. R (fst p) (fst q)) (map (Pair x) ys)" for ys :: "'b list"
    using assms(2) by (induction ys) (simp_all add: sorted_wrt_map)
  with Cons show ?case
    by (auto simp: sorted_wrt_append)
qed

lemma sorted_wrt_take_part: "sorted_wrt R xs \<Longrightarrow> sorted_wrt R (take n xs)"
proof -
  assume "sorted_wrt R xs"
  then have "sorted_wrt R (take n xs @ drop n xs)" by simp
  then show ?thesis unfolding sorted_wrt_append by blast
qed

lemma sorted_wrt_take_drop:
  "sorted_wrt R xs \<Longrightarrow> p \<in> set (take n xs) \<Longrightarrow> q \<in> set (drop n xs) \<Longrightarrow> R p q"
  using sorted_wrt_append [of R "take n xs" "drop n xs"] by simp

lemma favorites_general:
  assumes ord: "orders_by_count_decr (\<lambda>e. e) ord"
    and counts: "list_all (\<lambda>e. edge_count e \<noteq> None) (user_out_edges g s)"
    and s: "s = format_value (get_property_value (v_props user_vertex) ''name'')"
  shows "\<exists>ps. find_favorite_recipes_for_user ord g user_vertex n = map (favorite_of \<circ> snd) ps
      \<and> length ps = min n (length (recipe_edges g s))
      \<and> mset ps \<subseteq># mset (recipe_edges g s)
      \<and> sorted_wrt (\<lambda>p q. count_key (fst p) \<ge> count_key (fst q)) ps
      \<and> (\<forall>q\<in>set (recipe_edges g s). q \<notin> set ps \<longrightarrow>
           (\<forall>p\<in>set ps. count_key (fst q) \<le> count_key (fst p)))"
proof -
  let ?es = "user_out_edges g s"
  let ?pairs = "concat (map (\<lambda>e. map (Pair e) (recipe_targets g e)) (ord ?es))"
  let ?ps = "take n ?pairs"
  from ord counts have perm: "mset (ord ?es) = mset ?es"
    and srt: "sorted_wrt (\<lambda>x y. count_key x \<ge> count_key y) (ord ?es)"
    by (simp_all add: orders_by_count_decr_def)
  have pairs_mset: "mset ?pairs = mset (recipe_edges g s)"
    unfolding recipe_edges_def
    using mset_concat_map_cong [OF perm, of "\<lambda>e. map (Pair e) (recipe_targets g e)"]
    by (simp add: o_def)
  have pairs_sorted: "sorted_wrt (\<lambda>p q. count_key (fst p) \<ge> count_key (fst q)) ?pairs"
    by (rule sorted_wrt_pairs [OF srt]) simp
  have "concat (map (recipe_targets g) (ord ?es)) = map snd ?pairs"
    by (simp only: map_snd_pairs)
  then have "favorite_vertices ord g s n = map snd ?ps"
    by (simp only: favorite_vertices_targets take_map)
  then have res: "find_favorite_recipes_for_user ord g user_vertex n = map (favorite_of \<circ> snd) ?ps"
    by (simp only: find_favorite_map s [symmetric] map_map)
  have len: "length ?ps = min n (length (recipe_edges g s))"
    using mset_eq_length [OF pairs_mset] by (simp add: min.commute)
  have "mset ?ps + mset (drop n ?pairs) = mset ?pairs"
    by (simp only: mset_append [symmetric] append_take_drop_id)
  then have sub: "mset ?ps \<subseteq># mset (recipe_edges g s)"
    using mset_subset_eq_add_left [of "mset ?ps" "mset (drop n ?pairs)"]
    by (simp only: pairs_mset)
  have srt_ps: "sorted_wrt (\<lambda>p q. count_key (fst p) \<ge> count_key (fst q)) ?ps"
    using pairs_sorted by (rule sorted_wrt_take_part)
  have excl: "count_key (fst q) \<le> count_key (fst p)"
    if "q \<in> set (recipe_edges g s)" "q \<notin> set ?ps" "p \<in> set ?ps" for p q
  proof -
    from that(1) have "q \<in> set ?pairs" using mset_eq_setD [OF pairs_mset] by simp
    then have "q \<in> set ?ps \<union> set (drop n ?pairs)"
      by (metis append_take_drop_id set_append)
    with that(2) have "q \<in> set (drop n ?pairs)" by simp
    from sorted_wrt_take_drop [OF pairs_sorted that(3) this] show ?thesis .
  qed
  show ?thesis
    using res len sub srt_ps excl by (intro exI [of _ ?ps]) blast
qed


lemma mem_user_out_edges:
  "e \<in> set (user_out_edges g s) \<longleftrightarrow>
     e \<in> set (edges g) \<and>
     (\<exists>v\<in>set (vertices g). v_label v = ''person'' \<and>
        get_property_value (v_props v) ''name'' = Some (PStr s) \<and> Some (out_v e) = v_id v)"
  by (auto simp: user_out_edges_def split: if_splits)

lemma reachable_user_out_edges_counted:
  assumes "reachable g"
  shows "list_all (\<lambda>e. edge_count e \<noteq> None) (user_out_edges g s)"
proof -
  note inv = reachable_store_invariant [OF assms]
  have "edge_count e \<noteq> None" if "e \<in> set (user_out_edges g s)" for e
  proof -
    from that obtain v where e: "e \<in> set (edges g)" and v: "v \<in> set (vertices g)"
        "v_label v = ''person''" "v_id v = Some (out_v e)"
      by (auto simp: mem_user_out_edges)
    from inv e have ok: "has_from_recipe g e" by (simp add: store_invariant_def list_all_iff)
    have "e_label e \<noteq> ''has''"
    proof
      assume "e_label e = ''has''"
      from store_invariant_has_source [OF inv e this v(1,3)] v(2) show False by simp
    qed
    with ok show ?thesis by (simp add: has_from_recipe_def)
  qed
  then show ?thesis by (simp add: list_all_iff)
qed

lemma sorted_three:
  assumes perm: "mset xs = mset [a, b, c]" and d: "distinct [a, b, c]"
    and srt: "sorted_wrt (\<lambda>x y. (k x :: int) \<ge> k y) xs"
    and k: "k b < k a" "k b < k c"
  shows "xs = [a, c, b] \<or> xs = [c, a, b]"
proof -
  from mset_eq_length [OF perm] have "length xs = 3" by simp
  then obtain x y z where xs: "xs = [x, y, z]"
    by (auto simp: length_Suc_conv numeral_3_eq_3)
  from mset_eq_setD [OF perm] have set: "{x, y, z} = {a, b, c}" by (simp add: xs)
  from mset_eq_imp_distinct_iff [OF perm] d have dist: "distinct [x, y, z]" by (simp add: xs)
  from srt have ord: "k x \<ge> k y" "k x \<ge> k z" "k y \<ge> k z" by (simp_all add: xs)
  from set have "x \<in> {a, b, c}" "y \<in> {a, b, c}" "z \<in> {a, b, c}" by auto
  with dist ord k d show ?thesis
    unfolding xs by auto
qed

text \<open>
  C6. With an ordering step that returns its input sorted by descending count, and a
  user whose outgoing edges all have a count: the favourites are the recipes at the head
  of some of the user's outgoing edges, as many as the limit allows, in descending order
  of the count of their edges, and no outgoing edge to a recipe that was left out has a
  higher count than one that was taken. In a graph that the store can bring about every
  outgoing edge of a person has a count. For recipes A (5), B (2), C (5) and a limit of
  2 the result has two entries, A and C.
\<close>

theorem favorites_by_descending_count:
  "(orders_by_count_decr (\<lambda>e. e) ord \<and>
    s = format_value (get_property_value (v_props user_vertex) ''name'') \<and>
    list_all (\<lambda>e. edge_count e \<noteq> None) (user_out_edges g s) \<longrightarrow>
      (\<exists>ps. find_favorite_recipes_for_user ord g user_vertex n = map (favorite_of \<circ> snd) ps
         \<and> length ps = min n (length (recipe_edges g s))
         \<and> mset ps \<subseteq># mset (recipe_edges g s)
         \<and> sorted_wrt (\<lambda>p q. count_key (fst p) \<ge> count_key (fst q)) ps
         \<and> (\<forall>q\<in>set (recipe_edges g s). q \<notin> set ps \<longrightarrow>
              (\<forall>p\<in>set ps. count_key (fst q) \<le> count_key (fst p)))))
   \<and> (reachable g \<longrightarrow> list_all (\<lambda>e. edge_count e \<noteq> None) (user_out_edges g s))
   \<and> (orders_by_count_decr (\<lambda>e. e) ord \<longrightarrow>
        length (find_favorite_recipes_for_user ord favorites_example favorites_user 2) = 2 \<and>
        set (find_favorite_recipes_for_user ord favorites_example favorites_user 2) =
          {\<lparr>f_id = Some (PStr ''A''), f_title = Some (PStr ''Apple pie'')\<rparr>,
           \<lparr>f_id = Some (PStr ''C''), f_title = Some (PStr ''Curry'')\<rparr>})"
proof -
  have ex: "length (find_favorite_recipes_for_user ord favorites_example favorites_user 2) = 2 \<and>
        set (find_favorite_recipes_for_user ord favorites_example favorites_user 2) =
          {\<lparr>f_id = Some (PStr ''A''), f_title = Some (PStr ''Apple pie'')\<rparr>,
           \<lparr>f_id = Some (PStr ''C''), f_title = Some (PStr ''Curry'')\<rparr>}"
    if ord: "orders_by_count_decr (\<lambda>e. e) ord"
  proof -
    define a where "a = \<lparr>e_id = Some 4, e_label = ''selects'', out_v = 0, in_v = 1, e_props = [(''count'', PInt 5)]\<rparr>"
    define b where "b = \<lparr>e_id = Some 5, e_label = ''selects'', out_v = 0, in_v = 2, e_props = [(''count'', PInt 2)]\<rparr>"
    define c where "c = \<lparr>e_id = Some 6, e_label = ''selects'', out_v = 0, in_v = 3, e_props = [(''count'', PInt 5)]\<rparr>"
    have es: "user_out_edges favorites_example ''U'' = [a, b, c]"
      by (simp add: user_out_edges_def favorites_example_def favorites_user_def
          get_property_value_def a_def b_def c_def)
    have name: "format_value (get_property_value (v_props favorites_user) ''name'') = ''U''"
      by (simp add: favorites_user_def get_property_value_def format_value_def)
    have cnt: "edge_count a = Some 5" "edge_count b = Some 2" "edge_count c = Some 5"
      by (simp_all add: edge_count_def get_property_value_def a_def b_def c_def)
    then have keys: "count_key b < count_key a" "count_key b < count_key c"
      by (simp_all add: count_key_def)
    have dist: "distinct [a, b, c]" by (simp add: a_def b_def c_def)
    from ord cnt have "mset (ord [a, b, c]) = mset [a, b, c]"
      and "sorted_wrt (\<lambda>x y. count_key x \<ge> count_key y) (ord [a, b, c])"
      by (simp_all add: orders_by_count_decr_def)
    from sorted_three [OF this(1) dist this(2) keys]
    have cases: "ord [a, b, c] = [a, c, b] \<or> ord [a, b, c] = [c, a, b]" .
    have ta: "recipe_targets favorites_example a =
        [\<lparr>v_id = Some 1, v_label = ''recipe'', v_props = [(''name'', PStr ''A''), (''title'', PStr ''Apple pie'')]\<rparr>]"
      and tc: "recipe_targets favorites_example c =
        [\<lparr>v_id = Some 3, v_label = ''recipe'', v_props = [(''name'', PStr ''C''), (''title'', PStr ''Curry'')]\<rparr>]"
      by (simp_all add: recipe_targets_def favorites_example_def favorites_user_def a_def c_def)
    let ?A = "\<lparr>v_id = Some 1, v_label = ''recipe'', v_props = [(''name'', PStr ''A''), (''title'', PStr ''Apple pie'')]\<rparr>"
    let ?C = "\<lparr>v_id = Some 3, v_label = ''recipe'', v_props = [(''name'', PStr ''C''), (''title'', PStr ''Curry'')]\<rparr>"
    have res: "find_favorite_recipes_for_user ord favorites_example favorites_user 2 =
        map favorite_of (take 2 (concat (map (recipe_targets favorites_example) (ord [a, b, c]))))"
      by (simp only: find_favorite_map favorite_vertices_targets name es)
    from cases show ?thesis
    proof
      assume "ord [a, b, c] = [a, c, b]"
      then have "find_favorite_recipes_for_user ord favorites_example favorites_user 2 =
          [\<lparr>f_id = Some (PStr ''A''), f_title = Some (PStr ''Apple pie'')\<rparr>,
           \<lparr>f_id = Some (PStr ''C''), f_title = Some (PStr ''Curry'')\<rparr>]"
        by (simp add: res ta tc favorite_of_def get_property_value_def)
      then show ?thesis by simp
    next
      assume "ord [a, b, c] = [c, a, b]"
      then have "find_favorite_recipes_for_user ord favorites_example favorites_user 2 =
          [\<lparr>f_id = Some (PStr ''C''), f_title = Some (PStr ''Curry'')\<rparr>,
           \<lparr>f_id = Some (PStr ''A''), f_title = Some (PStr ''Apple pie'')\<rparr>]"
        by (simp add: res ta tc favorite_of_def get_property_value_def)
      then show ?thesis by auto
    qed
  qed
  show ?thesis
    using favorites_general [of ord g s user_vertex n] ex
      reachable_user_out_edges_counted [of g s] by blast
qed


theorem favorites_by_descending_count_witness:
  "(\<exists>ps. find_favorite_recipes_for_user (sort_by_count_decr (\<lambda>e. e)) favorites_example
             favorites_user 2 = map (favorite_of \<circ> snd) ps
         \<and> length ps = min 2 (length (recipe_edges favorites_example ''U''))
         \<and> mset ps \<subseteq># mset (recipe_edges favorites_example ''U'')
         \<and> sorted_wrt (\<lambda>p q. count_key (fst p) \<ge> count_key (fst q)) ps
         \<and> (\<forall>q\<in>set (recipe_edges favorites_example ''U''). q \<notin> set ps \<longrightarrow>
              (\<forall>p\<in>set ps. count_key (fst q) \<le> count_key (fst p))))
   \<and> list_all (\<lambda>e. edge_count e \<noteq> None) (user_out_edges recommend_example ''W'')
   \<and> length (find_favorite_recipes_for_user (sort_by_count_decr (\<lambda>e. e)) favorites_example
        favorites_user 2) = 2
   \<and> set (find_favorite_recipes_for_user (sort_by_count_decr (\<lambda>e. e)) favorites_example
        favorites_user 2) =
          {\<lparr>f_id = Some (PStr ''A''), f_title = Some (PStr ''Apple pie'')\<rparr>,
           \<lparr>f_id = Some (PStr ''C''), f_title = Some (PStr ''Curry'')\<rparr>}"
proof -
  have o: "orders_by_count_decr (\<lambda>e. e) (sort_by_count_decr (\<lambda>e. e))"
    by (rule sort_by_count_decr_orders)
  have name: "''U'' = format_value (get_property_value (v_props favorites_user) ''name'')"
    by (simp add: favorites_user_def get_property_value_def format_value_def)
  have cnt: "list_all (\<lambda>e. edge_count e \<noteq> None) (user_out_edges favorites_example ''U'')"
    by (simp add: user_out_edges_def favorites_example_def favorites_user_def
        get_property_value_def edge_count_def)
  note T = favorites_by_descending_count [of "sort_by_count_decr (\<lambda>e. e)" "''U''" favorites_user
      favorites_example 2]
  from o name cnt have h: "orders_by_count_decr (\<lambda>e. e) (sort_by_count_decr (\<lambda>e. e)) \<and>
    ''U'' = format_value (get_property_value (v_props favorites_user) ''name'') \<and>
    list_all (\<lambda>e. edge_count e \<noteq> None) (user_out_edges favorites_example ''U'')"
    by (intro conjI)
  note R = favorites_by_descending_count [of "sort_by_count_decr (\<lambda>e. e)" "''W''" ex_w
      recommend_example 2]
  show ?thesis
    using T [THEN conjunct1, THEN mp, OF h]
      R [THEN conjunct2, THEN conjunct1, THEN mp, OF reachable_recommend_example]
      T [THEN conjunct2, THEN conjunct2, THEN mp, OF o]
    by (intro conjI) simp_all
qed

end
